theory Spec2Isabelle
  imports Main "HOL-Library.Word"
begin

section \<open>Array execution of functions over indexed buffers\<close>

text \<open>
  A shallow embedding of \<^verbatim>\<open>source/blender/functions/functions/array_execution.cpp\<close>:
  the base class \<^verbatim>\<open>ArrayExecution\<close>, the boxed strategy
  \<^verbatim>\<open>TupleCallArrayExecution\<close> and the compiled strategy \<^verbatim>\<open>LLVMArrayExecution\<close>.
\<close>

subsection \<open>Machine data\<close>

text \<open>
  \<^verbatim>\<open>uint\<close> is a 32-bit unsigned integer: its arithmetic wraps. A \<^verbatim>\<open>void *\<close> is the address
  of a byte; the heap maps every address to the byte stored there. Buffers are regions of
  that one heap, so two buffer handles may overlap.
\<close>

type_synonym uint = "32 word"
type_synonym byte = "8 word"
type_synonym pointer = nat
type_synonym heap = "pointer \<Rightarrow> byte"

text \<open>Modelled from the spec: the macro \<^verbatim>\<open>POINTER_OFFSET(v, ofs)\<close> is not in this file;
  it is the address \<open>v\<close> advanced by \<open>ofs\<close> bytes. The offset the code passes is a \<^verbatim>\<open>uint\<close>.\<close>

definition POINTER_OFFSET :: "pointer \<Rightarrow> uint \<Rightarrow> pointer" where
  "POINTER_OFFSET v ofs = v + unat ofs"

fun load_bytes :: "heap \<Rightarrow> pointer \<Rightarrow> nat \<Rightarrow> byte list" where
  "load_bytes h p 0 = []"
| "load_bytes h p (Suc n) = h p # load_bytes h (Suc p) n"

fun store_bytes :: "heap \<Rightarrow> pointer \<Rightarrow> byte list \<Rightarrow> heap" where
  "store_bytes h p [] = h"
| "store_bytes h p (b # bs) = store_bytes (h(p := b)) (Suc p) bs"

text \<open>The bytes of an element: \<open>n\<close> bytes from address \<open>p\<close> on.\<close>

definition region :: "pointer \<Rightarrow> nat \<Rightarrow> pointer set" where
  "region p n = {p ..< p + n}"

subsection \<open>Errors and observable effects\<close>

text \<open>
  A failed \<^verbatim>\<open>BLI_assert\<close> stops the program (debug build); a failure of a function body
  or of code generation propagates through every frame that does not handle it, and no
  frame of this file handles anything.
\<close>

datatype error = AssertionFailed | BodyFailure nat | CompilationFailure nat

text \<open>The effects a run performs, logged in the order they happen.\<close>

datatype event =
    TuplesAllocated
  | CopiedIn nat pointer nat
  | BodyCalled "byte list list"
  | RelocatedOut nat pointer nat
  | ContextAcquired
  | ContextReleased
  | ModuleCreated string
  | IRBuilt
  | MachineCodeCompiled
  | NativeInvoked uint "uint list" "pointer list" "pointer list"
  | Loaded nat pointer nat
  | ActualFunctionCalled "byte list list"
  | Stored nat pointer nat

record 'ctx world =
  heap :: heap
  execution_context :: 'ctx
  llvm_context_held :: bool
  events :: "event list"

definition emit :: "event \<Rightarrow> 'ctx world \<Rightarrow> 'ctx world" where
  "emit e w = w\<lparr>events := events w @ [e]\<rparr>"

text \<open>
  A loop whose body may fail: the first failure ends the loop and is returned together
  with the state reached, as an exception leaving a \<^verbatim>\<open>for\<close> statement does.
\<close>

fun for_each :: "('a \<Rightarrow> 's \<Rightarrow> error option \<times> 's) \<Rightarrow> 'a list \<Rightarrow> 's \<Rightarrow> error option \<times> 's" where
  "for_each f [] s = (None, s)"
| "for_each f (x # xs) s =
     (case f x s of
        (Some e, s') \<Rightarrow> (Some e, s')
      | (None, s') \<Rightarrow> for_each f xs s')"

subsection \<open>The function descriptor\<close>

text \<open>
  The classes \<^verbatim>\<open>Type\<close>, \<^verbatim>\<open>Function\<close>, \<^verbatim>\<open>TupleCallBody\<close> and \<^verbatim>\<open>LLVMBuildIRBody\<close> are declared
  outside this file; they enter as data. A type carries the size its \<^verbatim>\<open>CPPTypeInfo\<close>
  reports. A value of a type is the bytes of one element. A boxed body maps the values of
  the input frame and the execution context to the values of the output frame, or fails;
  a compilable body denotes the function its emitted code computes, or fails to emit.
\<close>

record fn_type =
  type_name :: string
  cpp_type_size :: uint

type_synonym 'ctx TupleCallBody =
  "byte list list \<Rightarrow> 'ctx \<Rightarrow> (error + byte list list) \<times> 'ctx"

type_synonym 'ctx actual_function =
  "byte list list \<Rightarrow> 'ctx \<Rightarrow> byte list list \<times> 'ctx"

type_synonym 'ctx LLVMBuildIRBody = "error + 'ctx actual_function"

record 'ctx Function =
  fn_name :: string
  input_types :: "fn_type list"
  output_types :: "fn_type list"
  tuple_call_body :: "'ctx TupleCallBody option"
  llvm_build_ir_body :: "'ctx LLVMBuildIRBody option"

definition input_amount :: "'ctx Function \<Rightarrow> nat" where
  "input_amount f = length (input_types f)"

definition output_amount :: "'ctx Function \<Rightarrow> nat" where
  "output_amount f = length (output_types f)"

subsection \<open>ArrayExecution: the size tables\<close>

record 'ctx ArrayExecution =
  m_function :: "'ctx Function"
  m_input_sizes :: "uint list"
  m_output_sizes :: "uint list"

definition ArrayExecution_init :: "'ctx Function \<Rightarrow> 'ctx ArrayExecution" where
  "ArrayExecution_init function =
     \<lparr>m_function = function,
      m_input_sizes = map cpp_type_size (input_types function),
      m_output_sizes = map cpp_type_size (output_types function)\<rparr>"

subsection \<open>Call frames\<close>

text \<open>Modelled from the spec: the class \<^verbatim>\<open>Tuple\<close> is not in this file. A call frame has
  one slot per type; a slot is empty or holds one value.\<close>

record tuple =
  slot_sizes :: "uint list"
  slots :: "byte list option list"

text \<open>Modelled from the spec: the macro \<^verbatim>\<open>FN_TUPLE_CALL_ALLOC_TUPLES\<close> allocates the two
  frames of a body; a new frame has only empty slots.\<close>

definition alloc_tuple :: "fn_type list \<Rightarrow> tuple" where
  "alloc_tuple types =
     \<lparr>slot_sizes = map cpp_type_size types, slots = replicate (length types) None\<rparr>"

text \<open>Modelled from the spec: \<^verbatim>\<open>copy_in__dynamic\<close> copies the element at the source
  address into the slot, whatever the slot held, and leaves the source as it is.\<close>

definition copy_in__dynamic ::
  "nat \<Rightarrow> pointer \<Rightarrow> tuple \<times> 'ctx world \<Rightarrow> tuple \<times> 'ctx world" where
  "copy_in__dynamic i src = (\<lambda>(t, w).
     (let n = unat (slot_sizes t ! i) in
      (t\<lparr>slots := (slots t)[i := Some (load_bytes (heap w) src n)]\<rparr>,
       emit (CopiedIn i src n) w)))"

text \<open>Modelled from the spec: \<^verbatim>\<open>relocate_out__dynamic\<close> moves the value of the slot to
  the destination and leaves the slot empty; it asserts that the slot held a value.\<close>

definition relocate_out__dynamic ::
  "nat \<Rightarrow> pointer \<Rightarrow> tuple \<times> 'ctx world \<Rightarrow> error option \<times> tuple \<times> 'ctx world" where
  "relocate_out__dynamic i dst = (\<lambda>(t, w).
     (if i < length (slots t) then
        (case slots t ! i of
           None \<Rightarrow> (Some AssertionFailed, t, w)
         | Some v \<Rightarrow>
             (None, t\<lparr>slots := (slots t)[i := None]\<rparr>,
              emit (RelocatedOut i dst (length v)) (w\<lparr>heap := store_bytes (heap w) dst v\<rparr>)))
      else (Some AssertionFailed, t, w)))"

text \<open>
  Modelled from the spec: \<^verbatim>\<open>body.call(fn_in, fn_out, execution_context)\<close>. The body reads
  every input slot (reading an empty slot is an assertion failure) and fills the output
  frame; when it fails, the failure leaves the call.
\<close>

definition TupleCallBody_call ::
  "'ctx TupleCallBody \<Rightarrow> tuple \<Rightarrow> tuple \<Rightarrow> 'ctx world \<Rightarrow> error option \<times> tuple \<times> 'ctx world" where
  "TupleCallBody_call body fn_in fn_out w =
     (case those (slots fn_in) of
        None \<Rightarrow> (Some AssertionFailed, fn_out, w)
      | Some ins \<Rightarrow>
          (case body ins (execution_context w) of
             (Inl e, c) \<Rightarrow> (Some e, fn_out, emit (BodyCalled ins) (w\<lparr>execution_context := c\<rparr>))
           | (Inr outs, c) \<Rightarrow>
               (None, fn_out\<lparr>slots := map Some outs\<rparr>,
                emit (BodyCalled ins) (w\<lparr>execution_context := c\<rparr>))))"

subsection \<open>TupleCallArrayExecution\<close>

definition get_tuple_call_array_execution :: "'ctx Function \<Rightarrow> error + 'ctx ArrayExecution" where
  "get_tuple_call_array_execution function =
     (let this = ArrayExecution_init function in
      if tuple_call_body (m_function this) = None then Inl AssertionFailed else Inr this)"

text \<open>The first inner loop of \<^verbatim>\<open>call\<close>: copy the element of every input into \<^verbatim>\<open>fn_in\<close>.\<close>

definition copy_inputs ::
  "'ctx ArrayExecution \<Rightarrow> pointer list \<Rightarrow> uint \<Rightarrow> tuple \<times> 'ctx world \<Rightarrow> tuple \<times> 'ctx world" where
  "copy_inputs this input_buffers index =
     fold (\<lambda>i. copy_in__dynamic i
             (POINTER_OFFSET (input_buffers ! i) (index * m_input_sizes this ! i)))
          [0 ..< input_amount (m_function this)]"

text \<open>The second inner loop: move every output out of \<^verbatim>\<open>fn_out\<close> into its buffer.\<close>

definition relocate_outputs ::
  "'ctx ArrayExecution \<Rightarrow> pointer list \<Rightarrow> uint \<Rightarrow> tuple \<times> 'ctx world
     \<Rightarrow> error option \<times> tuple \<times> 'ctx world" where
  "relocate_outputs this output_buffers index =
     for_each (\<lambda>i. relocate_out__dynamic i
                 (POINTER_OFFSET (output_buffers ! i) (index * m_output_sizes this ! i)))
              [0 ..< output_amount (m_function this)]"

text \<open>The body of \<^verbatim>\<open>for (uint index : indices)\<close>; the state is both frames and the world.\<close>

definition process_index ::
  "'ctx ArrayExecution \<Rightarrow> 'ctx TupleCallBody \<Rightarrow> pointer list \<Rightarrow> pointer list \<Rightarrow> uint
     \<Rightarrow> tuple \<times> tuple \<times> 'ctx world \<Rightarrow> error option \<times> tuple \<times> tuple \<times> 'ctx world" where
  "process_index this body input_buffers output_buffers index = (\<lambda>(fn_in, fn_out, w).
     (let (fn_in1, w1) = copy_inputs this input_buffers index (fn_in, w) in
      case TupleCallBody_call body fn_in1 fn_out w1 of
        (Some e, fn_out2, w2) \<Rightarrow> (Some e, fn_in1, fn_out2, w2)
      | (None, fn_out2, w2) \<Rightarrow>
          (case relocate_outputs this output_buffers index (fn_out2, w2) of
             (r, fn_out3, w3) \<Rightarrow> (r, fn_in1, fn_out3, w3))))"

definition TupleCallArrayExecution_call ::
  "'ctx ArrayExecution \<Rightarrow> uint list \<Rightarrow> pointer list \<Rightarrow> pointer list \<Rightarrow> 'ctx world
     \<Rightarrow> error option \<times> 'ctx world" where
  "TupleCallArrayExecution_call this indices input_buffers output_buffers w =
     (if input_amount (m_function this) \<noteq> length input_buffers then (Some AssertionFailed, w)
      else if output_amount (m_function this) \<noteq> length output_buffers then (Some AssertionFailed, w)
      else
        (case tuple_call_body (m_function this) of
           None \<Rightarrow> (Some AssertionFailed, w)
         | Some body \<Rightarrow>
             (let fn_in = alloc_tuple (input_types (m_function this));
                  fn_out = alloc_tuple (output_types (m_function this));
                  (r, _, _, w') =
                     for_each (process_index this body input_buffers output_buffers) indices
                       (fn_in, fn_out, emit TuplesAllocated w)
              in (r, w'))))"

subsection \<open>LLVMArrayExecution: the generated function\<close>

text \<open>
  The code builder (\<^verbatim>\<open>CodeBuilder\<close>, \<^verbatim>\<open>IRConstruct_IterationsLoop\<close>), the per-type
  \<^verbatim>\<open>LLVMTypeInfo\<close> and \<^verbatim>\<open>CompiledLLVM\<close> are not in this file. The generated function is
  embedded as the function it computes, each builder call as the operation it emits.
\<close>

text \<open>Modelled from the spec: \<^verbatim>\<open>CreateLoadAtIndex\<close> emits a raw read of an array with no
  bounds check; beyond the array the value read is unspecified.\<close>

definition CreateLoadAtIndex :: "'a list \<Rightarrow> nat \<Rightarrow> 'a" where
  "CreateLoadAtIndex array i = array ! i"

text \<open>Modelled from the spec: \<^verbatim>\<open>CreateExtractValue\<close> takes a field of the aggregate the
  actual function returns, which has one field for every output type.\<close>

definition CreateExtractValue :: "'a list \<Rightarrow> nat \<Rightarrow> 'a" where
  "CreateExtractValue aggregate i = aggregate ! i"

text \<open>Modelled from the spec: \<^verbatim>\<open>CastToPointerWithStride\<close> gives a strided pointer, a
  pointer to element zero with a byte stride per step; \<^verbatim>\<open>CreateGEP\<close> steps it by whole
  elements in pointer arithmetic, which does not wrap at 32 bits.\<close>

record strided_pointer =
  base :: pointer
  stride :: uint

definition CastToPointerWithStride :: "pointer \<Rightarrow> uint \<Rightarrow> strided_pointer" where
  "CastToPointerWithStride p element_size = \<lparr>base = p, stride = element_size\<rparr>"

definition CreateGEP :: "strided_pointer \<Rightarrow> uint \<Rightarrow> pointer" where
  "CreateGEP p index = base p + unat index * unat (stride p)"

text \<open>Modelled from the spec: \<^verbatim>\<open>CreateNIterationsLoop\<close> builds a loop that counts
  \<^verbatim>\<open>current_iteration\<close> from 0 in the type of the count and runs its body while the counter
  is below the count.\<close>

function iterations_loop :: "uint \<Rightarrow> uint \<Rightarrow> (uint \<Rightarrow> 's \<Rightarrow> 's) \<Rightarrow> 's \<Rightarrow> 's" where
  "iterations_loop current_iteration iterations body s =
     (if current_iteration < iterations
      then iterations_loop (current_iteration + 1) iterations body (body current_iteration s)
      else s)"
  by pat_completeness auto
termination
proof (relation "measure (\<lambda>(i, n, _, _). unat n - unat i)")
  show "wf (measure (\<lambda>(i :: uint, n :: uint, _ :: uint \<Rightarrow> 's \<Rightarrow> 's, _ :: 's). unat n - unat i))"
    by simp
next
  fix current_iteration iterations :: uint and body :: "uint \<Rightarrow> 's \<Rightarrow> 's" and s :: 's
  assume lt: "current_iteration < iterations"
  then have "unat current_iteration < unat iterations"
    by (simp add: word_less_nat_alt)
  moreover have "unat iterations < 2 ^ LENGTH(32)"
    by (rule unsigned_less)
  ultimately have "unat current_iteration + unat (1 :: uint) < 2 ^ LENGTH(32)"
    by simp
  then have "unat (current_iteration + 1) = unat current_iteration + unat (1 :: uint)"
    by (simp only: unat_add_lem)
  moreover note \<open>unat current_iteration < unat iterations\<close>
  ultimately show "((current_iteration + 1, iterations, body, body current_iteration s),
          (current_iteration, iterations, body, s))
        \<in> measure (\<lambda>(i, n, _, _). unat n - unat i)"
    by simp
qed

declare iterations_loop.simps [simp del]

definition get_input_buffers :: "'ctx ArrayExecution \<Rightarrow> pointer list \<Rightarrow> strided_pointer list" where
  "get_input_buffers this input_buffers_arg =
     map (\<lambda>i. CastToPointerWithStride (CreateLoadAtIndex input_buffers_arg i)
                 (m_input_sizes this ! i))
         [0 ..< input_amount (m_function this)]"

definition get_output_buffers :: "'ctx ArrayExecution \<Rightarrow> pointer list \<Rightarrow> strided_pointer list" where
  "get_output_buffers this output_buffers_arg =
     map (\<lambda>i. CastToPointerWithStride (CreateLoadAtIndex output_buffers_arg i)
                 (m_output_sizes this ! i))
         [0 ..< output_amount (m_function this)]"

text \<open>Modelled from the spec: \<^verbatim>\<open>build_load_ir__copy\<close> of a type loads the bytes of one
  element of that type; \<^verbatim>\<open>build_store_ir__relocate\<close> stores the bytes of a value.\<close>

definition build_load_ir__copy :: "fn_type \<Rightarrow> nat \<Rightarrow> pointer \<Rightarrow> 'ctx world \<Rightarrow> byte list \<times> 'ctx world" where
  "build_load_ir__copy type i addr w =
     (let n = unat (cpp_type_size type) in (load_bytes (heap w) addr n, emit (Loaded i addr n) w))"

definition build_store_ir__relocate :: "fn_type \<Rightarrow> nat \<Rightarrow> byte list \<Rightarrow> pointer \<Rightarrow> 'ctx world \<Rightarrow> 'ctx world" where
  "build_store_ir__relocate type i v addr w =
     emit (Stored i addr (length v)) (w\<lparr>heap := store_bytes (heap w) addr v\<rparr>)"

definition get_input_values ::
  "'ctx ArrayExecution \<Rightarrow> strided_pointer list \<Rightarrow> uint \<Rightarrow> 'ctx world \<Rightarrow> byte list list \<times> 'ctx world" where
  "get_input_values this input_buffers index_to_process w =
     fold (\<lambda>i (input_values, w).
             (let addr = CreateGEP (input_buffers ! i) index_to_process;
                  (v, w') = build_load_ir__copy (input_types (m_function this) ! i) i addr w
              in (input_values @ [v], w')))
          [0 ..< input_amount (m_function this)] ([], w)"

definition store_output_values ::
  "'ctx ArrayExecution \<Rightarrow> strided_pointer list \<Rightarrow> uint \<Rightarrow> byte list list \<Rightarrow> 'ctx world \<Rightarrow> 'ctx world" where
  "store_output_values this output_buffers index_to_process computed_results =
     fold (\<lambda>i w.
             (let addr = CreateGEP (output_buffers ! i) index_to_process;
                  v = CreateExtractValue computed_results i
              in build_store_ir__relocate (output_types (m_function this) ! i) i v addr w))
          [0 ..< output_amount (m_function this)]"

type_synonym 'ctx CompiledFunctionSignature =
  "uint \<Rightarrow> uint list \<Rightarrow> pointer list \<Rightarrow> pointer list \<Rightarrow> 'ctx world \<Rightarrow> 'ctx world"

text \<open>The body of the generated loop, for one value of \<^verbatim>\<open>current_iteration\<close>.\<close>

definition loop_body ::
  "'ctx ArrayExecution \<Rightarrow> 'ctx actual_function \<Rightarrow> uint list \<Rightarrow> strided_pointer list
     \<Rightarrow> strided_pointer list \<Rightarrow> uint \<Rightarrow> 'ctx world \<Rightarrow> 'ctx world" where
  "loop_body this actual_function indices input_buffers output_buffers iteration w =
     (let index_to_process = CreateLoadAtIndex indices (unat iteration);
          (input_values, w1) = get_input_values this input_buffers index_to_process w;
          (result, c) = actual_function input_values (execution_context w1);
          w2 = emit (ActualFunctionCalled input_values) (w1\<lparr>execution_context := c\<rparr>)
      in store_output_values this output_buffers index_to_process result w2)"

definition generated_function ::
  "'ctx ArrayExecution \<Rightarrow> 'ctx actual_function \<Rightarrow> 'ctx CompiledFunctionSignature" where
  "generated_function this actual_function indices_amount indices input_buffers_arg output_buffers_arg w =
     (let input_buffers = get_input_buffers this input_buffers_arg;
          output_buffers = get_output_buffers this output_buffers_arg
      in iterations_loop 0 indices_amount
           (loop_body this actual_function indices input_buffers output_buffers) w)"

definition build_function_ir :: "'ctx ArrayExecution \<Rightarrow> error + 'ctx CompiledFunctionSignature" where
  "build_function_ir this =
     (case llvm_build_ir_body (m_function this) of
        None \<Rightarrow> Inl AssertionFailed
      | Some (Inl e) \<Rightarrow> Inl e
      | Some (Inr actual_function) \<Rightarrow> Inr (generated_function this actual_function))"

subsection \<open>LLVMArrayExecution: construction and call\<close>

text \<open>Modelled from the spec: \<^verbatim>\<open>aquire_llvm_context\<close> and \<^verbatim>\<open>release_llvm_context\<close> are not
  in this file. The global context is held from the acquire to the release.\<close>

definition aquire_llvm_context :: "'ctx world \<Rightarrow> 'ctx world" where
  "aquire_llvm_context w = emit ContextAcquired (w\<lparr>llvm_context_held := True\<rparr>)"

definition release_llvm_context :: "'ctx world \<Rightarrow> 'ctx world" where
  "release_llvm_context w = emit ContextReleased (w\<lparr>llvm_context_held := False\<rparr>)"

text \<open>Modelled from the spec: \<^verbatim>\<open>CompiledLLVM::FromIR\<close> is not in this file. It compiles
  the emitted function to machine code that computes what the emitted code denotes, or
  fails; whether it fails is a parameter of the model.\<close>

definition FromIR :: "error option \<Rightarrow> 'f \<Rightarrow> error + 'f" where
  "FromIR jit_failure function = (case jit_failure of Some e \<Rightarrow> Inl e | None \<Rightarrow> Inr function)"

record 'ctx LLVMArrayExecution = "'ctx ArrayExecution" +
  m_compiled_function :: "'ctx CompiledFunctionSignature"

definition compile ::
  "error option \<Rightarrow> 'ctx ArrayExecution \<Rightarrow> 'ctx world
     \<Rightarrow> (error + 'ctx CompiledFunctionSignature) \<times> 'ctx world" where
  "compile jit_failure this w =
     (let w1 = aquire_llvm_context w;
          w2 = emit (ModuleCreated (fn_name (m_function this) @ '' (Array Execution)'')) w1
      in case build_function_ir this of
           Inl e \<Rightarrow> (Inl e, w2)
         | Inr function \<Rightarrow>
             (let w3 = emit IRBuilt w2 in
              case FromIR jit_failure function of
                Inl e \<Rightarrow> (Inl e, w3)
              | Inr compiled \<Rightarrow>
                  (Inr compiled, release_llvm_context (emit MachineCodeCompiled w3))))"

definition get_precompiled_array_execution ::
  "error option \<Rightarrow> 'ctx Function \<Rightarrow> 'ctx world \<Rightarrow> (error + 'ctx LLVMArrayExecution) \<times> 'ctx world" where
  "get_precompiled_array_execution jit_failure function w =
     (let this = ArrayExecution_init function in
      if llvm_build_ir_body (m_function this) = None then (Inl AssertionFailed, w)
      else
        (case compile jit_failure this w of
           (Inl e, w') \<Rightarrow> (Inl e, w')
         | (Inr compiled, w') \<Rightarrow>
             (Inr \<lparr>m_function = m_function this, m_input_sizes = m_input_sizes this,
                   m_output_sizes = m_output_sizes this, m_compiled_function = compiled\<rparr>, w')))"

definition LLVMArrayExecution_call ::
  "'ctx LLVMArrayExecution \<Rightarrow> uint list \<Rightarrow> pointer list \<Rightarrow> pointer list \<Rightarrow> 'ctx world
     \<Rightarrow> error option \<times> 'ctx world" where
  "LLVMArrayExecution_call this indices input_buffers output_buffers w =
     (let function = m_compiled_function this;
          indices_size = (of_nat (length indices) :: uint)
      in (None, function indices_size indices input_buffers output_buffers
                  (emit (NativeInvoked indices_size indices input_buffers output_buffers) w)))"

subsection \<open>The two strategies behind one interface\<close>

datatype 'ctx strategy =
    TupleCall "'ctx ArrayExecution"
  | Precompiled "'ctx LLVMArrayExecution"

fun execute ::
  "'ctx strategy \<Rightarrow> uint list \<Rightarrow> pointer list \<Rightarrow> pointer list \<Rightarrow> 'ctx world
     \<Rightarrow> error option \<times> 'ctx world" where
  "execute (TupleCall this) indices input_buffers output_buffers w =
     TupleCallArrayExecution_call this indices input_buffers output_buffers w"
| "execute (Precompiled this) indices input_buffers output_buffers w =
     LLVMArrayExecution_call this indices input_buffers output_buffers w"
subsection \<open>What one index does, read off the loops of the boxed strategy\<close>

text \<open>
  The address \<^verbatim>\<open>POINTER_OFFSET(buffers[i], index * sizes[i])\<close> of the element of slot \<open>i\<close>,
  the values the first inner loop copies into \<^verbatim>\<open>fn_in\<close>, the stores the second inner loop
  performs, the events both log, and one whole iteration of the outer loop as a function on
  worlds. The lemmas below prove that the loops compute exactly these.
\<close>

definition element_ptr :: "pointer list \<Rightarrow> uint list \<Rightarrow> uint \<Rightarrow> nat \<Rightarrow> pointer" where
  "element_ptr buffers sizes index i = POINTER_OFFSET (buffers ! i) (index * sizes ! i)"

definition input_values :: "'ctx ArrayExecution \<Rightarrow> pointer list \<Rightarrow> uint \<Rightarrow> heap \<Rightarrow> byte list list" where
  "input_values this input_buffers index h =
     map (\<lambda>i. load_bytes h (element_ptr input_buffers (m_input_sizes this) index i)
                 (unat (m_input_sizes this ! i)))
         [0 ..< input_amount (m_function this)]"

definition copy_events :: "'ctx ArrayExecution \<Rightarrow> pointer list \<Rightarrow> uint \<Rightarrow> event list" where
  "copy_events this input_buffers index =
     map (\<lambda>i. CopiedIn i (element_ptr input_buffers (m_input_sizes this) index i)
                 (unat (m_input_sizes this ! i)))
         [0 ..< input_amount (m_function this)]"

definition store_outputs :: "'ctx ArrayExecution \<Rightarrow> pointer list \<Rightarrow> uint \<Rightarrow> byte list list \<Rightarrow> heap \<Rightarrow> heap" where
  "store_outputs this output_buffers index vals =
     fold (\<lambda>i h. store_bytes h (element_ptr output_buffers (m_output_sizes this) index i) (vals ! i))
          [0 ..< min (output_amount (m_function this)) (length vals)]"

definition relocate_events :: "'ctx ArrayExecution \<Rightarrow> pointer list \<Rightarrow> uint \<Rightarrow> byte list list \<Rightarrow> event list" where
  "relocate_events this output_buffers index vals =
     map (\<lambda>i. RelocatedOut i (element_ptr output_buffers (m_output_sizes this) index i) (length (vals ! i)))
         [0 ..< min (output_amount (m_function this)) (length vals)]"

definition index_step ::
  "'ctx ArrayExecution \<Rightarrow> 'ctx TupleCallBody \<Rightarrow> pointer list \<Rightarrow> pointer list \<Rightarrow> uint
     \<Rightarrow> 'ctx world \<Rightarrow> error option \<times> 'ctx world" where
  "index_step this body input_buffers output_buffers index w =
     (let ins = input_values this input_buffers index (heap w) in
      case body ins (execution_context w) of
        (Inl e, c) \<Rightarrow>
          (Some e, w\<lparr>execution_context := c,
                     events := events w @ copy_events this input_buffers index @ [BodyCalled ins]\<rparr>)
      | (Inr vals, c) \<Rightarrow>
          (if output_amount (m_function this) \<le> length vals then None else Some AssertionFailed,
           w\<lparr>heap := store_outputs this output_buffers index vals (heap w),
             execution_context := c,
             events := events w @ copy_events this input_buffers index @ [BodyCalled ins]
                        @ relocate_events this output_buffers index vals\<rparr>))"

subsection \<open>What one iteration of the generated loop does\<close>

text \<open>
  The address a strided pointer reaches at a logical index, the values one iteration loads,
  the stores it performs, the events it logs, and the whole iteration as a function on
  worlds. The lemmas below prove that the generated function computes exactly these.
\<close>

definition element_address :: "pointer list \<Rightarrow> uint list \<Rightarrow> uint \<Rightarrow> nat \<Rightarrow> pointer" where
  "element_address buffers sizes index i = buffers ! i + unat index * unat (sizes ! i)"

definition loaded_values :: "'ctx ArrayExecution \<Rightarrow> pointer list \<Rightarrow> uint \<Rightarrow> heap \<Rightarrow> byte list list" where
  "loaded_values this input_buffers_arg index h =
     map (\<lambda>i. load_bytes h (element_address input_buffers_arg (m_input_sizes this) index i)
                 (unat (cpp_type_size (input_types (m_function this) ! i))))
         [0 ..< input_amount (m_function this)]"

definition load_events :: "'ctx ArrayExecution \<Rightarrow> pointer list \<Rightarrow> uint \<Rightarrow> event list" where
  "load_events this input_buffers_arg index =
     map (\<lambda>i. Loaded i (element_address input_buffers_arg (m_input_sizes this) index i)
                 (unat (cpp_type_size (input_types (m_function this) ! i))))
         [0 ..< input_amount (m_function this)]"

definition native_stores :: "'ctx ArrayExecution \<Rightarrow> pointer list \<Rightarrow> uint \<Rightarrow> byte list list \<Rightarrow> heap \<Rightarrow> heap" where
  "native_stores this output_buffers_arg index result =
     fold (\<lambda>i h. store_bytes h (element_address output_buffers_arg (m_output_sizes this) index i)
                    (result ! i))
          [0 ..< output_amount (m_function this)]"

definition store_events :: "'ctx ArrayExecution \<Rightarrow> pointer list \<Rightarrow> uint \<Rightarrow> byte list list \<Rightarrow> event list" where
  "store_events this output_buffers_arg index result =
     map (\<lambda>i. Stored i (element_address output_buffers_arg (m_output_sizes this) index i)
                 (length (result ! i)))
         [0 ..< output_amount (m_function this)]"

definition native_step ::
  "'ctx ArrayExecution \<Rightarrow> 'ctx actual_function \<Rightarrow> pointer list \<Rightarrow> pointer list \<Rightarrow> uint
     \<Rightarrow> 'ctx world \<Rightarrow> 'ctx world" where
  "native_step this actual_function input_buffers_arg output_buffers_arg index w =
     (let ins = loaded_values this input_buffers_arg index (heap w);
          (result, c) = actual_function ins (execution_context w)
      in w\<lparr>heap := native_stores this output_buffers_arg index result (heap w),
           execution_context := c,
           events := events w @ load_events this input_buffers_arg index
                      @ [ActualFunctionCalled ins]
                      @ store_events this output_buffers_arg index result\<rparr>)"

fun is_actual_call :: "event \<Rightarrow> bool" where
  "is_actual_call (ActualFunctionCalled _) = True"
| "is_actual_call _ = False"

subsection \<open>Kinds of events\<close>

text \<open>The events of code generation, and the invocation of the compiled function.\<close>

fun is_code_generation :: "event \<Rightarrow> bool" where
  "is_code_generation ContextAcquired = True"
| "is_code_generation ContextReleased = True"
| "is_code_generation (ModuleCreated _) = True"
| "is_code_generation IRBuilt = True"
| "is_code_generation MachineCodeCompiled = True"
| "is_code_generation _ = False"

fun is_native_invocation :: "event \<Rightarrow> bool" where
  "is_native_invocation (NativeInvoked _ _ _ _) = True"
| "is_native_invocation _ = False"

subsection \<open>Observing a boxed run\<close>

text \<open>
  Predicates on events; the values a boxed body returns; the world a boxed call has reached
  before position \<open>j\<close> of its index sequence; the events position \<open>j\<close> adds; and the
  region of the element of slot \<open>k\<close> at an index, at the address the boxed strategy
  computes for it.
\<close>

fun is_allocation :: "event \<Rightarrow> bool" where
  "is_allocation TuplesAllocated = True"
| "is_allocation _ = False"

fun is_body_call :: "event \<Rightarrow> bool" where
  "is_body_call (BodyCalled _) = True"
| "is_body_call _ = False"

definition body_outputs :: "'ctx TupleCallBody \<Rightarrow> byte list list \<Rightarrow> 'ctx \<Rightarrow> byte list list" where
  "body_outputs body ins c = (case fst (body ins c) of Inr vals \<Rightarrow> vals | Inl _ \<Rightarrow> [])"

definition world_before ::
  "'ctx ArrayExecution \<Rightarrow> uint list \<Rightarrow> pointer list \<Rightarrow> pointer list \<Rightarrow> 'ctx world \<Rightarrow> nat
     \<Rightarrow> 'ctx world" where
  "world_before this indices input_buffers output_buffers w j =
     snd (TupleCallArrayExecution_call this (take j indices) input_buffers output_buffers w)"

definition index_events ::
  "'ctx ArrayExecution \<Rightarrow> 'ctx TupleCallBody \<Rightarrow> uint list \<Rightarrow> pointer list \<Rightarrow> pointer list
     \<Rightarrow> 'ctx world \<Rightarrow> nat \<Rightarrow> event list" where
  "index_events this body indices input_buffers output_buffers w j =
     (let wj = world_before this indices input_buffers output_buffers w j;
          index = indices ! j;
          ins = input_values this input_buffers index (heap wj)
      in copy_events this input_buffers index
         @ [BodyCalled ins]
         @ relocate_events this output_buffers index (body_outputs body ins (execution_context wj)))"

definition output_region :: "'ctx ArrayExecution \<Rightarrow> pointer list \<Rightarrow> uint \<Rightarrow> nat \<Rightarrow> pointer set" where
  "output_region this output_buffers index k =
     region (element_ptr output_buffers (m_output_sizes this) index k) (unat (m_output_sizes this ! k))"

subsection \<open>The accesses the specification names\<close>

text \<open>
  \<open>offsets_fit\<close>: every product of an index and an element size is below \<open>2^32\<close>.
  \<open>reads_of\<close> and \<open>writes_of\<close> project a log to the buffer accesses it records, as
  (slot, address, number of bytes). The definitions named \<open>spec_\<close> follow the
  specification's words: for every index \<open>i\<close> in order and every slot \<open>k\<close>, one element at
  byte offset \<open>i * size[k]\<close> inside \<open>buffers[k]\<close>, the product taken in the natural numbers.
\<close>

definition offsets_fit :: "uint list \<Rightarrow> uint list \<Rightarrow> bool" where
  "offsets_fit sizes indices =
     list_all (\<lambda>index. list_all (\<lambda>s. unat index * unat s < 2 ^ 32) sizes) indices"

fun read_of :: "event \<Rightarrow> (nat \<times> pointer \<times> nat) list" where
  "read_of (CopiedIn k p n) = [(k, p, n)]"
| "read_of (Loaded k p n) = [(k, p, n)]"
| "read_of _ = []"

fun write_of :: "event \<Rightarrow> (nat \<times> pointer \<times> nat) list" where
  "write_of (RelocatedOut k p n) = [(k, p, n)]"
| "write_of (Stored k p n) = [(k, p, n)]"
| "write_of _ = []"

definition reads_of :: "event list \<Rightarrow> (nat \<times> pointer \<times> nat) list" where
  "reads_of evs = concat (map read_of evs)"

definition writes_of :: "event list \<Rightarrow> (nat \<times> pointer \<times> nat) list" where
  "writes_of evs = concat (map write_of evs)"

definition spec_element :: "pointer list \<Rightarrow> fn_type list \<Rightarrow> uint \<Rightarrow> nat \<Rightarrow> nat \<times> pointer \<times> nat" where
  "spec_element buffers types index k =
     (k, buffers ! k + unat index * unat (cpp_type_size (types ! k)), unat (cpp_type_size (types ! k)))"

definition spec_accesses :: "pointer list \<Rightarrow> fn_type list \<Rightarrow> uint list \<Rightarrow> (nat \<times> pointer \<times> nat) list" where
  "spec_accesses buffers types indices =
     concat (map (\<lambda>index. map (spec_element buffers types index) [0 ..< length types]) indices)"

definition spec_region :: "pointer list \<Rightarrow> fn_type list \<Rightarrow> uint list \<Rightarrow> pointer set" where
  "spec_region buffers types indices =
     (\<Union>index \<in> set indices. \<Union>k \<in> {..< length types}.
        region (buffers ! k + unat index * unat (cpp_type_size (types ! k)))
               (unat (cpp_type_size (types ! k))))"

subsection \<open>The bytes a strategy reads and writes\<close>

text \<open>
  The input elements a run of a strategy reads and the output elements it writes, at the
  addresses that strategy computes: the boxed strategy with the \<^verbatim>\<open>uint\<close> product, the
  compiled strategy with the strided pointer.
\<close>

fun read_footprint :: "'ctx strategy \<Rightarrow> pointer list \<Rightarrow> uint list \<Rightarrow> pointer set" where
  "read_footprint (TupleCall this) input_buffers indices =
     (\<Union>index \<in> set indices. \<Union>k \<in> {..< length (m_input_sizes this)}.
        region (element_ptr input_buffers (m_input_sizes this) index k) (unat (m_input_sizes this ! k)))"
| "read_footprint (Precompiled this) input_buffers indices =
     (\<Union>index \<in> set indices. \<Union>k \<in> {..< length (m_input_sizes this)}.
        region (element_address input_buffers (m_input_sizes this) index k) (unat (m_input_sizes this ! k)))"

fun write_footprint :: "'ctx strategy \<Rightarrow> pointer list \<Rightarrow> uint list \<Rightarrow> pointer set" where
  "write_footprint (TupleCall this) output_buffers indices =
     (\<Union>index \<in> set indices. \<Union>k \<in> {..< length (m_output_sizes this)}.
        region (element_ptr output_buffers (m_output_sizes this) index k) (unat (m_output_sizes this ! k)))"
| "write_footprint (Precompiled this) output_buffers indices =
     (\<Union>index \<in> set indices. \<Union>k \<in> {..< length (m_output_sizes this)}.
        region (element_address output_buffers (m_output_sizes this) index k) (unat (m_output_sizes this ! k)))"

subsection \<open>Example functions and worlds\<close>

definition ex_fail_body :: "nat TupleCallBody" where
  "ex_fail_body ins c =
     (if hd (hd ins) = 0 then (Inl (BodyFailure 7), c) else (Inr [[hd (hd ins) + 1]], Suc c))"

definition ex_byte :: fn_type where
  "ex_byte = \<lparr>type_name = ''byte'', cpp_type_size = 1\<rparr>"

definition ex_fail_fn :: "nat Function" where
  "ex_fail_fn = \<lparr>fn_name = ''inc'', input_types = [ex_byte], output_types = [ex_byte],
      tuple_call_body = Some ex_fail_body, llvm_build_ir_body = None\<rparr>"

definition ex_world :: "nat world" where
  "ex_world = \<lparr>heap = (\<lambda>a. if a = 100 then 5 else if a = 102 then 9 else 0),
      execution_context = 0, llvm_context_held = False, events = []\<rparr>"

definition ex_twice :: "byte list list \<Rightarrow> byte list list" where
  "ex_twice ins = [[2 * hd (hd ins)]]"

definition ex_twice_fn :: "nat Function" where
  "ex_twice_fn = \<lparr>fn_name = ''twice'', input_types = [ex_byte], output_types = [ex_byte],
      tuple_call_body = Some (\<lambda>ins c. (Inr (ex_twice ins), c)),
      llvm_build_ir_body = Some (Inr (\<lambda>ins c. (ex_twice ins, c)))\<rparr>"

definition ex_twice_compiled :: "nat LLVMArrayExecution" where
  "ex_twice_compiled =
     \<lparr>m_function = ex_twice_fn, m_input_sizes = [1], m_output_sizes = [1],
      m_compiled_function =
        generated_function (ArrayExecution_init ex_twice_fn) (\<lambda>ins c. (ex_twice ins, c))\<rparr>"

definition ex_world_compiled :: "nat world" where
  "ex_world_compiled = ex_world\<lparr>events :=
     [ContextAcquired, ModuleCreated ''twice (Array Execution)'', IRBuilt, MachineCodeCompiled,
      ContextReleased]\<rparr>"

definition ex_count_body :: "nat TupleCallBody" where
  "ex_count_body ins c = (Inr [[of_nat c]], Suc c)"

definition ex_count_fn :: "nat Function" where
  "ex_count_fn = \<lparr>fn_name = ''count'', input_types = [ex_byte], output_types = [ex_byte],
      tuple_call_body = Some ex_count_body, llvm_build_ir_body = None\<rparr>"

definition ex_word :: fn_type where
  "ex_word = \<lparr>type_name = ''word'', cpp_type_size = 4\<rparr>"

definition ex_copy_fn :: "nat Function" where
  "ex_copy_fn = \<lparr>fn_name = ''copy'', input_types = [ex_word], output_types = [ex_word],
      tuple_call_body = Some (\<lambda>ins c. (Inr ins, c)),
      llvm_build_ir_body = Some (Inr (\<lambda>ins c. (ins, c)))\<rparr>"

definition ex_copy_compiled :: "nat LLVMArrayExecution" where
  "ex_copy_compiled =
     \<lparr>m_function = ex_copy_fn, m_input_sizes = [4], m_output_sizes = [4],
      m_compiled_function =
        generated_function (ArrayExecution_init ex_copy_fn) (\<lambda>ins c. (ins, c))\<rparr>"

definition ex_world_again :: "nat world" where
  "ex_world_again = \<lparr>heap = (\<lambda>a. if a = 100 then 5 else if a = 102 then 9 else 33),
      execution_context = 41, llvm_context_held = True, events = [TuplesAllocated]\<rparr>"

section \<open>Properties\<close>

subsection \<open>The loops of the boxed strategy in closed form\<close>

lemma for_each_append:
  "for_each f (xs @ ys) s =
     (case for_each f xs s of (Some e, s') \<Rightarrow> (Some e, s') | (None, s') \<Rightarrow> for_each f ys s')"
  by (induction xs arbitrary: s) (auto split: prod.splits option.splits)

lemma drop_update_head:
  "k < length ys \<Longrightarrow> (xs @ drop k ys)[length xs := v] = (xs @ [v]) @ drop (Suc k) ys"
  by (simp add: list_update_append Cons_nth_drop_Suc [symmetric])

lemma copy_in_fold:
  "k \<le> length (slots t) \<Longrightarrow>
   fold (\<lambda>i. copy_in__dynamic i (a i)) [0 ..< k] (t, w) =
     (t\<lparr>slots := map (\<lambda>i. Some (load_bytes (heap w) (a i) (unat (slot_sizes t ! i)))) [0 ..< k]
                    @ drop k (slots t)\<rparr>,
      w\<lparr>events := events w @ map (\<lambda>i. CopiedIn i (a i) (unat (slot_sizes t ! i))) [0 ..< k]\<rparr>)"
proof (induction k)
  case 0
  then show ?case by simp
next
  case (Suc k)
  then have k: "k < length (slots t)" by simp
  have len: "length (map (\<lambda>i. Some (load_bytes (heap w) (a i) (unat (slot_sizes t ! i)))) [0 ..< k]) = k"
    by simp
  show ?case
    using Suc.IH k drop_update_head [OF k, of "map (\<lambda>i. Some (load_bytes (heap w) (a i) (unat (slot_sizes t ! i)))) [0 ..< k]"]
    by (simp add: copy_in__dynamic_def emit_def Let_def)
qed

lemma copy_inputs_eq:
  assumes "length (slots t) = input_amount (m_function this)"
    and "slot_sizes t = m_input_sizes this"
  shows "copy_inputs this input_buffers index (t, w) =
     (t\<lparr>slots := map Some (input_values this input_buffers index (heap w))\<rparr>,
      w\<lparr>events := events w @ copy_events this input_buffers index\<rparr>)"
  using assms copy_in_fold [of "input_amount (m_function this)" t
      "\<lambda>i. POINTER_OFFSET (input_buffers ! i) (index * m_input_sizes this ! i)" w]
  by (simp add: copy_inputs_def input_values_def copy_events_def element_ptr_def comp_def)


lemma those_map_Some: "those (map Some xs) = Some xs"
  by (induction xs) auto

lemma relocate_out_fold:
  "for_each (\<lambda>i. relocate_out__dynamic i (a i)) [0 ..< k] (t\<lparr>slots := map Some vals\<rparr>, w) =
     (if k \<le> length vals then None else Some AssertionFailed,
      t\<lparr>slots := replicate (min k (length vals)) None @ drop (min k (length vals)) (map Some vals)\<rparr>,
      w\<lparr>heap := fold (\<lambda>i h. store_bytes h (a i) (vals ! i)) [0 ..< min k (length vals)] (heap w),
        events := events w @ map (\<lambda>i. RelocatedOut i (a i) (length (vals ! i))) [0 ..< min k (length vals)]\<rparr>)"
proof (induction k)
  case 0
  then show ?case by simp
next
  case (Suc k)
  show ?case
  proof (cases "k < length vals")
    case True
    then have m: "min k (length vals) = k" "min (Suc k) (length vals) = Suc k" by simp_all
    have upd: "(replicate k None @ drop k (map Some vals))[k := None]
        = replicate (Suc k) None @ drop (Suc k) (map Some vals)"
      using True drop_update_head [of k "map Some vals" "replicate k None" None]
      by (simp add: replicate_append_same)
    have nth: "(replicate k None @ drop k (map Some vals)) ! k = Some (vals ! k)"
      using True by (simp add: nth_append)
    show ?thesis
      using True Suc.IH m upd nth
      by (simp add: for_each_append relocate_out__dynamic_def emit_def)
  next
    case False
    then have m: "min k (length vals) = length vals" "min (Suc k) (length vals) = length vals"
      by simp_all
    show ?thesis
      using False Suc.IH m
      by (auto simp: for_each_append relocate_out__dynamic_def)
  qed
qed


lemma relocate_outputs_eq:
  "relocate_outputs this output_buffers index (t\<lparr>slots := map Some vals\<rparr>, w) =
     (if output_amount (m_function this) \<le> length vals then None else Some AssertionFailed,
      t\<lparr>slots := replicate (min (output_amount (m_function this)) (length vals)) None
                    @ drop (min (output_amount (m_function this)) (length vals)) (map Some vals)\<rparr>,
      w\<lparr>heap := store_outputs this output_buffers index vals (heap w),
        events := events w @ relocate_events this output_buffers index vals\<rparr>)"
  unfolding relocate_outputs_def store_outputs_def relocate_events_def element_ptr_def
  by (rule relocate_out_fold)

lemma process_index_eq:
  assumes "length (slots fn_in) = input_amount (m_function this)"
    and "slot_sizes fn_in = m_input_sizes this"
  shows "\<exists>fn_out'. process_index this body input_buffers output_buffers index (fn_in, fn_out, w) =
     (fst (index_step this body input_buffers output_buffers index w),
      fn_in\<lparr>slots := map Some (input_values this input_buffers index (heap w))\<rparr>,
      fn_out',
      snd (index_step this body input_buffers output_buffers index w))"
proof (cases "body (input_values this input_buffers index (heap w)) (execution_context w)")
  case (Pair r c)
  show ?thesis
  proof (cases r)
    case (Inl e)
    with Pair show ?thesis
      by (simp add: process_index_def copy_inputs_eq [OF assms] TupleCallBody_call_def
          those_map_Some index_step_def emit_def)
  next
    case (Inr vals)
    with Pair show ?thesis
      by (simp add: process_index_def copy_inputs_eq [OF assms] TupleCallBody_call_def
          those_map_Some index_step_def emit_def relocate_outputs_eq)
  qed
qed

lemma length_input_values [simp]:
  "length (input_values this input_buffers index h) = input_amount (m_function this)"
  by (simp add: input_values_def)

lemma for_each_process_index:
  assumes "length (slots fn_in) = input_amount (m_function this)"
    and "slot_sizes fn_in = m_input_sizes this"
  shows "(case for_each (process_index this body input_buffers output_buffers) indices
                 (fn_in, fn_out, w) of (r, _, _, w') \<Rightarrow> (r, w'))
         = for_each (index_step this body input_buffers output_buffers) indices w"
  using assms
proof (induction indices arbitrary: fn_in fn_out w)
  case Nil
  then show ?case by simp
next
  case (Cons index indices)
  obtain fn_out' where step:
    "process_index this body input_buffers output_buffers index (fn_in, fn_out, w) =
     (fst (index_step this body input_buffers output_buffers index w),
      fn_in\<lparr>slots := map Some (input_values this input_buffers index (heap w))\<rparr>,
      fn_out',
      snd (index_step this body input_buffers output_buffers index w))"
    using process_index_eq [OF Cons.prems] by blast
  obtain r w1 where stp: "index_step this body input_buffers output_buffers index w = (r, w1)"
    by (cases "index_step this body input_buffers output_buffers index w")
  show ?case
  proof (cases r)
    case None
    have "(case for_each (process_index this body input_buffers output_buffers) indices
                 (fn_in\<lparr>slots := map Some (input_values this input_buffers index (heap w))\<rparr>, fn_out', w1)
            of (r, _, _, w') \<Rightarrow> (r, w'))
         = for_each (index_step this body input_buffers output_buffers) indices w1"
      by (rule Cons.IH) (simp_all add: Cons.prems)
    with None step stp show ?thesis by simp
  next
    case (Some e)
    with step stp show ?thesis by simp
  qed
qed

lemma TupleCallArrayExecution_call_eq:
  assumes "get_tuple_call_array_execution function = Inr this"
    and "tuple_call_body function = Some body"
  shows "TupleCallArrayExecution_call this indices input_buffers output_buffers w =
     (if input_amount function \<noteq> length input_buffers \<or> output_amount function \<noteq> length output_buffers
      then (Some AssertionFailed, w)
      else for_each (index_step this body input_buffers output_buffers) indices
             (emit TuplesAllocated w))"
proof -
  have this_eq: "this = ArrayExecution_init function"
    using assms(1) by (simp add: get_tuple_call_array_execution_def Let_def split: if_splits)
  have inv: "length (slots (alloc_tuple (input_types function))) = input_amount (m_function this)"
    "slot_sizes (alloc_tuple (input_types function)) = m_input_sizes this"
    by (simp_all add: this_eq alloc_tuple_def ArrayExecution_init_def input_amount_def)
  have fn: "m_function this = function"
    by (simp add: this_eq ArrayExecution_init_def)
  show ?thesis
    using for_each_process_index [OF inv, of body input_buffers output_buffers indices
        "alloc_tuple (output_types function)" "emit TuplesAllocated w"] assms(2)
    by (simp add: TupleCallArrayExecution_call_def fn Let_def split: prod.splits)
qed


subsection \<open>The generated function in closed form\<close>

lemma unat_plus_one_below:
  fixes i n :: uint
  assumes "i < n"
  shows "unat (i + 1) = Suc (unat i)"
proof -
  have "unat i < unat n" using assms by (simp add: word_less_nat_alt)
  moreover have "unat n < 2 ^ LENGTH(32)" by (rule unsigned_less)
  ultimately have "unat i + unat (1 :: uint) < 2 ^ LENGTH(32)" by simp
  then have "unat (i + 1) = unat i + unat (1 :: uint)" by (simp only: unat_add_lem)
  then show ?thesis by simp
qed

lemma iterations_loop_from:
  "i \<le> n \<Longrightarrow> iterations_loop i n body s = fold body (map of_nat [unat i ..< unat n]) s"
proof (induction i n body s rule: iterations_loop.induct)
  case (1 i n body s)
  show ?case
  proof (cases "i < n")
    case True
    then have le: "i + 1 \<le> n" by (rule inc_le)
    have suc: "unat (i + 1) = Suc (unat i)" using True by (rule unat_plus_one_below)
    have lt: "unat i < unat n" using True by (simp add: word_less_nat_alt)
    have "iterations_loop i n body s = iterations_loop (i + 1) n body (body i s)"
      using True by (subst iterations_loop.simps) simp
    also have "\<dots> = fold body (map of_nat [unat (i + 1) ..< unat n]) (body i s)"
      using "1.IH" [OF True le] .
    also have "\<dots> = fold body (map of_nat [unat i ..< unat n]) s"
      using lt by (simp add: suc upt_conv_Cons)
    finally show ?thesis .
  next
    case False
    with "1.prems" have "i = n" by simp
    then show ?thesis by (subst iterations_loop.simps) simp
  qed
qed

lemma iterations_loop_eq:
  "iterations_loop 0 n body s = fold body (map of_nat [0 ..< unat n]) s"
  using iterations_loop_from [of 0 n body s] by simp


lemma load_fold:
  "k \<le> input_amount (m_function this) \<Longrightarrow>
   fold (\<lambda>i (input_values, w).
           (let addr = CreateGEP (get_input_buffers this input_buffers_arg ! i) index;
                (v, w') = build_load_ir__copy (input_types (m_function this) ! i) i addr w
            in (input_values @ [v], w')))
        [0 ..< k] ([], w) =
     (map (\<lambda>i. load_bytes (heap w) (element_address input_buffers_arg (m_input_sizes this) index i)
                 (unat (cpp_type_size (input_types (m_function this) ! i)))) [0 ..< k],
      w\<lparr>events := events w @
         map (\<lambda>i. Loaded i (element_address input_buffers_arg (m_input_sizes this) index i)
                 (unat (cpp_type_size (input_types (m_function this) ! i)))) [0 ..< k]\<rparr>)"
proof (induction k)
  case 0
  then show ?case by simp
next
  case (Suc k)
  then have k: "k < input_amount (m_function this)" by simp
  have gep: "CreateGEP (get_input_buffers this input_buffers_arg ! k) index
      = element_address input_buffers_arg (m_input_sizes this) index k"
    using k by (simp add: get_input_buffers_def CreateGEP_def CastToPointerWithStride_def
        CreateLoadAtIndex_def element_address_def)
  show ?case
    using Suc.IH k
    by (simp add: gep build_load_ir__copy_def emit_def Let_def)
qed

lemma get_input_values_eq:
  "get_input_values this (get_input_buffers this input_buffers_arg) index w =
     (loaded_values this input_buffers_arg index (heap w),
      w\<lparr>events := events w @ load_events this input_buffers_arg index\<rparr>)"
  unfolding get_input_values_def loaded_values_def load_events_def
  by (rule load_fold) simp

lemma store_fold:
  "k \<le> output_amount (m_function this) \<Longrightarrow>
   fold (\<lambda>i w.
           (let addr = CreateGEP (get_output_buffers this output_buffers_arg ! i) index;
                v = CreateExtractValue result i
            in build_store_ir__relocate (output_types (m_function this) ! i) i v addr w))
        [0 ..< k] w =
     w\<lparr>heap := fold (\<lambda>i h. store_bytes h (element_address output_buffers_arg (m_output_sizes this) index i)
                      (result ! i)) [0 ..< k] (heap w),
       events := events w @
         map (\<lambda>i. Stored i (element_address output_buffers_arg (m_output_sizes this) index i)
                 (length (result ! i))) [0 ..< k]\<rparr>"
proof (induction k)
  case 0
  then show ?case by simp
next
  case (Suc k)
  then have k: "k < output_amount (m_function this)" by simp
  have gep: "CreateGEP (get_output_buffers this output_buffers_arg ! k) index
      = element_address output_buffers_arg (m_output_sizes this) index k"
    using k by (simp add: get_output_buffers_def CreateGEP_def CastToPointerWithStride_def
        CreateLoadAtIndex_def element_address_def)
  show ?case
    using Suc.IH k
    by (simp add: gep build_store_ir__relocate_def CreateExtractValue_def emit_def Let_def)
qed

lemma store_output_values_eq:
  "store_output_values this (get_output_buffers this output_buffers_arg) index result w =
     w\<lparr>heap := native_stores this output_buffers_arg index result (heap w),
       events := events w @ store_events this output_buffers_arg index result\<rparr>"
  unfolding store_output_values_def native_stores_def store_events_def
  by (rule store_fold) simp

lemma loop_body_eq:
  "loop_body this actual_function indices (get_input_buffers this input_buffers_arg)
       (get_output_buffers this output_buffers_arg) iteration w =
     native_step this actual_function input_buffers_arg output_buffers_arg
       (indices ! unat iteration) w"
  by (simp add: loop_body_def native_step_def get_input_values_eq store_output_values_eq
      CreateLoadAtIndex_def emit_def Let_def split: prod.splits)

lemma generated_function_eq:
  "generated_function this actual_function indices_amount indices input_buffers_arg output_buffers_arg w =
     fold (\<lambda>iteration :: uint. native_step this actual_function input_buffers_arg output_buffers_arg
                           (indices ! unat iteration))
          (map of_nat [0 ..< unat indices_amount]) w"
  by (simp add: generated_function_def iterations_loop_eq loop_body_eq [abs_def] Let_def)

lemma actual_calls_load_events [simp]: "filter is_actual_call (load_events this bufs index) = []"
  by (simp add: load_events_def filter_map comp_def)

lemma actual_calls_store_events [simp]: "filter is_actual_call (store_events this bufs index result) = []"
  by (simp add: store_events_def filter_map comp_def)

lemma native_step_actual_calls:
  "length (filter is_actual_call (events (native_step this actual_function inb outb index w)))
     = Suc (length (filter is_actual_call (events w)))"
  by (simp add: native_step_def Let_def split: prod.splits)

lemma fold_native_step_actual_calls:
  "length (filter is_actual_call
      (events (fold (\<lambda>iteration. native_step this actual_function inb outb (g iteration)) its w)))
     = length (filter is_actual_call (events w)) + length its"
  by (induction its arbitrary: w) (simp_all add: native_step_actual_calls)

subsection \<open>Compilation and the events of a native run\<close>

lemma native_step_events_other:
  assumes "\<And>i p n. \<not> P (Loaded i p n)" "\<And>i p n. \<not> P (Stored i p n)"
    "\<And>v. \<not> P (ActualFunctionCalled v)"
  shows "filter P (events (native_step this actual_function inb outb index w)) = filter P (events w)"
  using assms
  by (simp add: native_step_def Let_def load_events_def store_events_def filter_map comp_def
      split: prod.splits)

lemma fold_native_step_events_other:
  assumes "\<And>i p n. \<not> P (Loaded i p n)" "\<And>i p n. \<not> P (Stored i p n)"
    "\<And>v. \<not> P (ActualFunctionCalled v)"
  shows "filter P (events (fold (\<lambda>iteration. native_step this actual_function inb outb (g iteration)) its w))
     = filter P (events w)"
  by (induction its arbitrary: w) (simp_all add: native_step_events_other [of P, OF assms])

lemma compile_success:
  assumes "compile jit_failure this w = (Inr compiled, w')"
  shows "\<exists>actual_function. llvm_build_ir_body (m_function this) = Some (Inr actual_function)
           \<and> compiled = generated_function this actual_function"
    and "events w' = events w @ [ContextAcquired,
            ModuleCreated (fn_name (m_function this) @ '' (Array Execution)''),
            IRBuilt, MachineCodeCompiled, ContextReleased]"
    and "\<not> llvm_context_held w'"
    and "jit_failure = None"
  using assms
  by (auto simp: compile_def build_function_ir_def FromIR_def aquire_llvm_context_def
      release_llvm_context_def emit_def Let_def split: option.splits sum.splits)

lemma compile_failure:
  assumes "compile jit_failure this w = (Inl e, w')"
  shows "llvm_context_held w'"
  using assms
  by (auto simp: compile_def build_function_ir_def FromIR_def aquire_llvm_context_def
      release_llvm_context_def emit_def Let_def split: option.splits sum.splits)

lemma ex_twice_precompiled:
  "get_precompiled_array_execution None ex_twice_fn ex_world = (Inr ex_twice_compiled, ex_world_compiled)"
  by (simp add: get_precompiled_array_execution_def compile_def build_function_ir_def FromIR_def
      aquire_llvm_context_def release_llvm_context_def emit_def Let_def ArrayExecution_init_def
      ex_twice_fn_def ex_twice_compiled_def ex_world_compiled_def ex_world_def ex_byte_def)

lemmas native_eval =
  LLVMArrayExecution_call_def generated_function_eq native_step_def loaded_values_def
  load_events_def native_stores_def store_events_def element_address_def emit_def
  input_amount_def output_amount_def ArrayExecution_init_def

subsection \<open>Evaluating the examples\<close>

lemma ex_fail_ctor: "get_tuple_call_array_execution ex_fail_fn = Inr (ArrayExecution_init ex_fail_fn)"
  by (simp add: get_tuple_call_array_execution_def ArrayExecution_init_def ex_fail_fn_def)

lemmas boxed_eval =
  TupleCallArrayExecution_call_def ArrayExecution_init_def input_amount_def output_amount_def
  alloc_tuple_def process_index_def copy_inputs_def relocate_outputs_def copy_in__dynamic_def
  relocate_out__dynamic_def TupleCallBody_call_def emit_def POINTER_OFFSET_def
  input_values_def copy_events_def element_ptr_def

lemma ex_count_ctor: "get_tuple_call_array_execution ex_count_fn = Inr (ArrayExecution_init ex_count_fn)"
  by (simp add: get_tuple_call_array_execution_def ArrayExecution_init_def ex_count_fn_def)

lemma ex_twice_ctor: "get_tuple_call_array_execution ex_twice_fn = Inr (ArrayExecution_init ex_twice_fn)"
  by (simp add: get_tuple_call_array_execution_def ArrayExecution_init_def ex_twice_fn_def)

lemma run_ok: "fst r = None \<Longrightarrow> r = (None, snd r)"
  by (cases r) simp

subsection \<open>Loads and stores\<close>

lemma store_bytes_outside:
  "a \<notin> region p (length v) \<Longrightarrow> store_bytes h p v a = h a"
  by (induction v arbitrary: h p) (auto simp: region_def)

lemma store_bytes_inside:
  "a \<in> region p (length v) \<Longrightarrow> store_bytes h p v a = v ! (a - p)"
proof (induction v arbitrary: h p)
  case Nil
  then show ?case by (simp add: region_def)
next
  case (Cons b bs)
  show ?case
  proof (cases "a = p")
    case True
    then have "a \<notin> region (Suc p) (length bs)" by (simp add: region_def)
    then show ?thesis using True by (simp add: store_bytes_outside)
  next
    case False
    with Cons.prems have "a \<in> region (Suc p) (length bs)" by (auto simp: region_def)
    then have "store_bytes (h(p := b)) (Suc p) bs a = bs ! (a - Suc p)" by (rule Cons.IH)
    moreover have "a - p = Suc (a - Suc p)" using False Cons.prems by (auto simp: region_def)
    ultimately show ?thesis by simp
  qed
qed

lemma load_bytes_map: "load_bytes h p n = map h [p ..< p + n]"
proof (induction n arbitrary: p)
  case 0
  then show ?case by simp
next
  case (Suc n)
  have "[p ..< p + Suc n] = p # [Suc p ..< Suc p + n]"
    by (simp add: upt_conv_Cons)
  then show ?case using Suc.IH [of "Suc p"] by simp
qed

lemma load_bytes_cong:
  "(\<And>a. a \<in> region p n \<Longrightarrow> h a = h' a) \<Longrightarrow> load_bytes h p n = load_bytes h' p n"
  by (simp add: load_bytes_map region_def)

lemma load_store_same: "load_bytes (store_bytes h p v) p (length v) = v"
proof (rule nth_equalityI)
  show "length (load_bytes (store_bytes h p v) p (length v)) = length v"
    by (simp add: load_bytes_map)
next
  fix i assume "i < length (load_bytes (store_bytes h p v) p (length v))"
  then have i: "i < length v" by (simp add: load_bytes_map)
  then have "p + i \<in> region p (length v)" by (simp add: region_def)
  then have "store_bytes h p v (p + i) = v ! i" by (simp add: store_bytes_inside)
  then show "load_bytes (store_bytes h p v) p (length v) ! i = v ! i"
    using i by (simp add: load_bytes_map)
qed

text \<open>A sequence of stores: outside all regions the heap is unchanged; inside, the
  result does not depend on the heap the stores started from.\<close>

lemma fold_store_outside:
  "(\<And>i. i \<in> set is \<Longrightarrow> a \<notin> region (p i) (length (v i))) \<Longrightarrow>
   fold (\<lambda>i h. store_bytes h (p i) (v i)) is h a = h a"
  by (induction "is" arbitrary: h) (simp_all add: store_bytes_outside)

lemma fold_store_inside:
  "\<exists>i \<in> set is. a \<in> region (p i) (length (v i)) \<Longrightarrow>
   fold (\<lambda>i h. store_bytes h (p i) (v i)) is h a = fold (\<lambda>i h. store_bytes h (p i) (v i)) is h' a"
proof (induction "is" arbitrary: h h' rule: rev_induct)
  case Nil
  then show ?case by simp
next
  case (snoc j js)
  show ?case
  proof (cases "a \<in> region (p j) (length (v j))")
    case True
    then show ?thesis by (simp add: store_bytes_inside)
  next
    case False
    with snoc.prems have "\<exists>i \<in> set js. a \<in> region (p i) (length (v i))" by auto
    then have "fold (\<lambda>i h. store_bytes h (p i) (v i)) js h a
        = fold (\<lambda>i h. store_bytes h (p i) (v i)) js h' a"
      by (rule snoc.IH)
    then show ?thesis using False by (simp add: store_bytes_outside)
  qed
qed

lemma fold_store_last:
  assumes "a \<in> region (p j) (length (v j))"
    and "\<And>i. i \<in> set js \<Longrightarrow> a \<notin> region (p i) (length (v i))"
  shows "fold (\<lambda>i h. store_bytes h (p i) (v i)) (is @ j # js) h a = v j ! (a - p j)"
  using assms by (simp add: fold_store_outside store_bytes_inside)


subsection \<open>A boxed run, index by index\<close>

lemma call_nil:
  assumes "get_tuple_call_array_execution function = Inr this"
  shows "TupleCallArrayExecution_call this [] input_buffers output_buffers w =
     (if input_amount function \<noteq> length input_buffers \<or> output_amount function \<noteq> length output_buffers
      then (Some AssertionFailed, w) else (None, emit TuplesAllocated w))"
proof -
  obtain body where "tuple_call_body function = Some body"
    using assms by (auto simp: get_tuple_call_array_execution_def ArrayExecution_init_def Let_def
        split: if_splits)
  then show ?thesis
    by (simp add: TupleCallArrayExecution_call_eq [OF assms])
qed

lemma call_snoc:
  assumes "get_tuple_call_array_execution function = Inr this"
    and "tuple_call_body function = Some body"
  shows "TupleCallArrayExecution_call this (indices @ [index]) input_buffers output_buffers w =
     (case TupleCallArrayExecution_call this indices input_buffers output_buffers w of
        (Some e, w1) \<Rightarrow> (Some e, w1)
      | (None, w1) \<Rightarrow> index_step this body input_buffers output_buffers index w1)"
  by (auto simp: TupleCallArrayExecution_call_eq [OF assms] for_each_append
      split: prod.splits option.splits)

lemma index_step_ok:
  assumes "index_step this body input_buffers output_buffers index w = (None, w')"
  shows "\<exists>vals c. body (input_values this input_buffers index (heap w)) (execution_context w) = (Inr vals, c)
    \<and> output_amount (m_function this) \<le> length vals
    \<and> heap w' = store_outputs this output_buffers index vals (heap w)
    \<and> execution_context w' = c
    \<and> events w' = events w @ copy_events this input_buffers index
          @ [BodyCalled (input_values this input_buffers index (heap w))]
          @ relocate_events this output_buffers index vals"
  using assms
  by (auto simp: index_step_def Let_def split: prod.splits sum.splits if_splits)

lemma index_events_snoc_old:
  "j < length xs \<Longrightarrow>
   index_events this body (xs @ [x]) input_buffers output_buffers w j
     = index_events this body xs input_buffers output_buffers w j"
  by (simp add: index_events_def world_before_def nth_append)

lemma run_events:
  assumes "get_tuple_call_array_execution function = Inr this"
    and "tuple_call_body function = Some body"
    and "TupleCallArrayExecution_call this indices input_buffers output_buffers w = (None, w')"
  shows "events w' = events w @ TuplesAllocated #
     concat (map (index_events this body indices input_buffers output_buffers w) [0 ..< length indices])"
  using assms(3)
proof (induction indices arbitrary: w' rule: rev_induct)
  case Nil
  then show ?case
    by (auto simp: call_nil [OF assms(1)] emit_def split: if_splits)
next
  case (snoc x xs)
  let ?call = "TupleCallArrayExecution_call this xs input_buffers output_buffers w"
  obtain w1 where before: "?call = (None, w1)"
    and step: "index_step this body input_buffers output_buffers x w1 = (None, w')"
    using snoc.prems
    by (auto simp: call_snoc [OF assms(1,2)] split: prod.splits option.splits)
  obtain vals c where body: "body (input_values this input_buffers x (heap w1)) (execution_context w1) = (Inr vals, c)"
    and ev: "events w' = events w1 @ copy_events this input_buffers x
          @ [BodyCalled (input_values this input_buffers x (heap w1))]
          @ relocate_events this output_buffers x vals"
    using index_step_ok [OF step] by blast
  have last: "index_events this body (xs @ [x]) input_buffers output_buffers w (length xs)
      = copy_events this input_buffers x
          @ [BodyCalled (input_values this input_buffers x (heap w1))]
          @ relocate_events this output_buffers x vals"
    by (simp add: index_events_def world_before_def before body body_outputs_def)
  have old: "map (index_events this body (xs @ [x]) input_buffers output_buffers w) [0 ..< length xs]
      = map (index_events this body xs input_buffers output_buffers w) [0 ..< length xs]"
    by (rule map_cong) (simp_all add: index_events_snoc_old)
  show ?case
    using snoc.IH [OF before] ev by (simp add: old last)
qed


lemma ctor_facts:
  assumes "get_tuple_call_array_execution function = Inr this"
  shows "m_function this = function"
    and "m_input_sizes this = map cpp_type_size (input_types function)"
    and "m_output_sizes this = map cpp_type_size (output_types function)"
    and "length (m_input_sizes this) = input_amount function"
    and "length (m_output_sizes this) = output_amount function"
  using assms
  by (auto simp: get_tuple_call_array_execution_def ArrayExecution_init_def Let_def
      input_amount_def output_amount_def split: if_splits)

lemma upt_split_at: "k < n \<Longrightarrow> [0 ..< n] = [0 ..< k] @ k # [Suc k ..< n]"
  using upt_add_eq_append [of 0 k "n - k"] by (simp add: upt_conv_Cons)

lemma typed_length:
  assumes "map length vals = map unat sizes"
  shows "length vals = length sizes"
  using assms by (metis length_map)

lemma typed_lengths:
  assumes "map length vals = map unat sizes" and "k < length sizes"
  shows "length (vals ! k) = unat (sizes ! k)"
proof -
  have len: "length vals = length sizes"
    using assms(1) by (rule typed_length)
  have "map length vals ! k = map unat sizes ! k" using assms(1) by simp
  then show ?thesis
    using assms(2) len by simp
qed

lemma store_outputs_frame:
  assumes "map length vals = map unat (m_output_sizes this)"
    and "length (m_output_sizes this) = output_amount (m_function this)"
    and "\<And>k. k < output_amount (m_function this) \<Longrightarrow> a \<notin> output_region this output_buffers index k"
  shows "store_outputs this output_buffers index vals h a = h a"
  unfolding store_outputs_def
proof (rule fold_store_outside)
  fix i assume "i \<in> set [0 ..< min (output_amount (m_function this)) (length vals)]"
  then have i: "i < output_amount (m_function this)" by simp
  then have "length (vals ! i) = unat (m_output_sizes this ! i)"
    using typed_lengths [OF assms(1)] assms(2) by simp
  then show "a \<notin> region (element_ptr output_buffers (m_output_sizes this) index i) (length (vals ! i))"
    using assms(3) [OF i] by (simp add: output_region_def)
qed

lemma index_step_frame:
  assumes "\<And>ins c vals c'. body ins c = (Inr vals, c') \<Longrightarrow> map length vals = map unat (m_output_sizes this)"
    and "length (m_output_sizes this) = output_amount (m_function this)"
    and "index_step this body input_buffers output_buffers index w = (r, w')"
    and "\<And>k. k < output_amount (m_function this) \<Longrightarrow> a \<notin> output_region this output_buffers index k"
  shows "heap w' a = heap w a"
proof (cases "body (input_values this input_buffers index (heap w)) (execution_context w)")
  case (Pair res c)
  show ?thesis
  proof (cases res)
    case (Inl e)
    with Pair assms(3) show ?thesis by (auto simp: index_step_def)
  next
    case (Inr vals)
    have "map length vals = map unat (m_output_sizes this)"
      using assms(1) Pair Inr by blast
    then have "store_outputs this output_buffers index vals (heap w) a = heap w a"
      using assms(2,4) by (rule store_outputs_frame)
    with Pair Inr assms(3) show ?thesis by (auto simp: index_step_def)
  qed
qed

lemma for_each_index_step_frame:
  assumes "\<And>ins c vals c'. body ins c = (Inr vals, c') \<Longrightarrow> map length vals = map unat (m_output_sizes this)"
    and "length (m_output_sizes this) = output_amount (m_function this)"
    and "for_each (index_step this body input_buffers output_buffers) indices w = (r, w')"
    and "\<And>index k. index \<in> set indices \<Longrightarrow> k < output_amount (m_function this)
            \<Longrightarrow> a \<notin> output_region this output_buffers index k"
  shows "heap w' a = heap w a"
  using assms(3,4)
proof (induction indices arbitrary: w)
  case Nil
  then show ?case by simp
next
  case (Cons index indices)
  obtain r1 w1 where step: "index_step this body input_buffers output_buffers index w = (r1, w1)"
    by (cases "index_step this body input_buffers output_buffers index w")
  have h1: "heap w1 a = heap w a"
  proof (rule index_step_frame [OF assms(1) assms(2) step])
    fix k assume "k < output_amount (m_function this)"
    then show "a \<notin> output_region this output_buffers index k"
      using Cons.prems(2) by simp
  qed (assumption)
  show ?case
  proof (cases r1)
    case None
    with step Cons.prems(1) have "for_each (index_step this body input_buffers output_buffers) indices w1 = (r, w')"
      by simp
    then have "heap w' a = heap w1 a"
    proof (rule Cons.IH)
      fix index' k assume "index' \<in> set indices" "k < output_amount (m_function this)"
      then show "a \<notin> output_region this output_buffers index' k"
        using Cons.prems(2) by simp
    qed
    with h1 show ?thesis by simp
  next
    case (Some e)
    with step Cons.prems(1) have "w' = w1" by simp
    with h1 show ?thesis by simp
  qed
qed


lemma not_allocation_index_events [simp]:
  "filter is_allocation (index_events this body indices input_buffers output_buffers w j) = []"
  by (simp add: index_events_def copy_events_def relocate_events_def Let_def filter_map comp_def)

lemma body_calls_index_events [simp]:
  "filter is_body_call (index_events this body indices input_buffers output_buffers w j)
     = [BodyCalled (input_values this input_buffers (indices ! j)
          (heap (world_before this indices input_buffers output_buffers w j)))]"
  by (simp add: index_events_def copy_events_def relocate_events_def Let_def filter_map comp_def)

lemma filter_concat_map_nil:
  "(\<And>x. x \<in> set xs \<Longrightarrow> filter P (f x) = []) \<Longrightarrow> filter P (concat (map f xs)) = []"
  by (induction xs) simp_all

lemma filter_concat_map_single:
  "(\<And>x. x \<in> set xs \<Longrightarrow> filter P (f x) = [g x]) \<Longrightarrow> filter P (concat (map f xs)) = map g xs"
  by (induction xs) simp_all

subsection \<open>The accesses of a run\<close>

lemma reads_of_append [simp]: "reads_of (xs @ ys) = reads_of xs @ reads_of ys"
  by (simp add: reads_of_def)

lemma writes_of_append [simp]: "writes_of (xs @ ys) = writes_of xs @ writes_of ys"
  by (simp add: writes_of_def)

lemma reads_of_Cons [simp]: "reads_of (e # evs) = read_of e @ reads_of evs"
  by (simp add: reads_of_def)

lemma writes_of_Cons [simp]: "writes_of (e # evs) = write_of e @ writes_of evs"
  by (simp add: writes_of_def)

lemma reads_of_Nil [simp]: "reads_of [] = []"
  by (simp add: reads_of_def)

lemma writes_of_Nil [simp]: "writes_of [] = []"
  by (simp add: writes_of_def)

lemma offsets_fit_mult:
  assumes "offsets_fit sizes indices" "index \<in> set indices" "k < length sizes"
  shows "unat (index * sizes ! k) = unat index * unat (sizes ! k)"
proof -
  have "unat index * unat (sizes ! k) < 2 ^ 32"
    using assms by (auto simp: offsets_fit_def list_all_iff)
  then have "unat index * unat (sizes ! k) < 2 ^ LENGTH(32)" by simp
  then show ?thesis by (simp only: unat_mult_lem)
qed

lemma element_ptr_fit:
  assumes "offsets_fit sizes indices" "index \<in> set indices" "k < length sizes"
  shows "element_ptr buffers sizes index k = element_address buffers sizes index k"
  using offsets_fit_mult [OF assms]
  by (simp add: element_ptr_def element_address_def POINTER_OFFSET_def)

lemma concat_map_nth:
  "concat (map (\<lambda>j. f (xs ! j)) [0 ..< length xs]) = concat (map f xs)"
proof -
  have "map (\<lambda>j. f (xs ! j)) [0 ..< length xs] = map f (map (\<lambda>j. xs ! j) [0 ..< length xs])"
    by (simp add: comp_def)
  then show ?thesis by (simp add: map_nth)
qed

lemma reads_of_concat: "reads_of (concat xss) = concat (map reads_of xss)"
  by (induction xss) simp_all

lemma writes_of_concat: "writes_of (concat xss) = concat (map writes_of xss)"
  by (induction xss) simp_all

lemma reads_of_copy_events:
  "reads_of (copy_events this input_buffers index)
     = map (\<lambda>i. (i, element_ptr input_buffers (m_input_sizes this) index i, unat (m_input_sizes this ! i)))
           [0 ..< input_amount (m_function this)]"
  by (simp add: copy_events_def reads_of_def concat_map_singleton comp_def)

lemma writes_of_copy_events [simp]: "writes_of (copy_events this input_buffers index) = []"
  by (simp add: copy_events_def writes_of_def comp_def)

lemma reads_of_relocate_events [simp]: "reads_of (relocate_events this output_buffers index vals) = []"
  by (simp add: relocate_events_def reads_of_def comp_def)

lemma writes_of_relocate_events:
  "writes_of (relocate_events this output_buffers index vals)
     = map (\<lambda>i. (i, element_ptr output_buffers (m_output_sizes this) index i, length (vals ! i)))
           [0 ..< min (output_amount (m_function this)) (length vals)]"
  by (simp add: relocate_events_def writes_of_def concat_map_singleton comp_def)


lemma world_before_snoc_old:
  "j \<le> length xs \<Longrightarrow>
   world_before this (xs @ [x]) input_buffers output_buffers w j
     = world_before this xs input_buffers output_buffers w j"
  by (simp add: world_before_def)

lemma run_bodies_ok:
  assumes "get_tuple_call_array_execution function = Inr this"
    and "tuple_call_body function = Some body"
    and "TupleCallArrayExecution_call this indices input_buffers output_buffers w = (None, w')"
    and "j < length indices"
  shows "\<exists>vals c.
     body (input_values this input_buffers (indices ! j)
             (heap (world_before this indices input_buffers output_buffers w j)))
          (execution_context (world_before this indices input_buffers output_buffers w j))
       = (Inr vals, c)"
  using assms(3,4)
proof (induction indices arbitrary: w' rule: rev_induct)
  case Nil
  then show ?case by simp
next
  case (snoc x xs)
  obtain w1 where before: "TupleCallArrayExecution_call this xs input_buffers output_buffers w = (None, w1)"
    and step: "index_step this body input_buffers output_buffers x w1 = (None, w')"
    using snoc.prems(1)
    by (auto simp: call_snoc [OF assms(1,2)] split: prod.splits option.splits)
  show ?case
  proof (cases "j < length xs")
    case True
    then show ?thesis
      using snoc.IH [OF before True] by (simp add: world_before_snoc_old nth_append)
  next
    case False
    with snoc.prems(2) have j: "j = length xs" by simp
    have wb: "world_before this (xs @ [x]) input_buffers output_buffers w (length xs) = w1"
      by (simp add: world_before_def before)
    show ?thesis
      using index_step_ok [OF step] unfolding j by (auto simp: wb)
  qed
qed

lemma run_returns_normally:
  assumes "get_tuple_call_array_execution function = Inr this"
    and "tuple_call_body function = Some body"
    and "length input_buffers = input_amount function"
    and "length output_buffers = output_amount function"
    and "\<And>j. j < length indices \<Longrightarrow>
           \<exists>vals c.
             body (input_values this input_buffers (indices ! j)
                     (heap (world_before this indices input_buffers output_buffers w j)))
                  (execution_context (world_before this indices input_buffers output_buffers w j))
               = (Inr vals, c)
             \<and> output_amount function \<le> length vals"
  shows "fst (TupleCallArrayExecution_call this indices input_buffers output_buffers w) = None"
  using assms(5)
proof (induction indices rule: rev_induct)
  case Nil
  then show ?case
    using assms(3,4) by (simp add: call_nil [OF assms(1)])
next
  case (snoc x xs)
  have "fst (TupleCallArrayExecution_call this xs input_buffers output_buffers w) = None"
  proof (rule snoc.IH)
    fix j assume j: "j < length xs"
    then have "j < length (xs @ [x])" by simp
    from snoc.prems [OF this] show "\<exists>vals c.
             body (input_values this input_buffers (xs ! j)
                     (heap (world_before this xs input_buffers output_buffers w j)))
                  (execution_context (world_before this xs input_buffers output_buffers w j))
               = (Inr vals, c)
             \<and> output_amount function \<le> length vals"
      using j by (simp add: world_before_snoc_old nth_append)
  qed
  then have before: "TupleCallArrayExecution_call this xs input_buffers output_buffers w
      = (None, world_before this (xs @ [x]) input_buffers output_buffers w (length xs))"
    by (simp add: world_before_def run_ok)
  obtain vals c where body:
    "body (input_values this input_buffers x
             (heap (world_before this (xs @ [x]) input_buffers output_buffers w (length xs))))
          (execution_context (world_before this (xs @ [x]) input_buffers output_buffers w (length xs)))
       = (Inr vals, c)"
    and enough: "output_amount function \<le> length vals"
    using snoc.prems [of "length xs"] by auto
  have fn: "m_function this = function"
    using ctor_facts(1) [OF assms(1)] .
  show ?case
    by (simp add: call_snoc [OF assms(1,2)] before index_step_def Let_def body enough fn)
qed

lemma boxed_reads:
  assumes "get_tuple_call_array_execution function = Inr this"
    and "tuple_call_body function = Some body"
    and "TupleCallArrayExecution_call this indices input_buffers output_buffers w = (None, w')"
    and "offsets_fit (m_input_sizes this) indices"
  shows "reads_of (events w') = reads_of (events w) @ spec_accesses input_buffers (input_types function) indices"
proof -
  note facts = ctor_facts [OF assms(1)]
  have per: "reads_of (index_events this body indices input_buffers output_buffers w j)
      = map (spec_element input_buffers (input_types function) (indices ! j)) [0 ..< length (input_types function)]"
    if j: "j < length indices" for j
  proof -
    have in_set: "indices ! j \<in> set indices" using j by simp
    have "reads_of (index_events this body indices input_buffers output_buffers w j)
        = map (\<lambda>i. (i, element_ptr input_buffers (m_input_sizes this) (indices ! j) i,
                     unat (m_input_sizes this ! i))) [0 ..< input_amount (m_function this)]"
      by (simp add: index_events_def Let_def reads_of_copy_events)
    also have "\<dots> = map (spec_element input_buffers (input_types function) (indices ! j))
                       [0 ..< length (input_types function)]"
    proof (rule map_cong)
      show "[0 ..< input_amount (m_function this)] = [0 ..< length (input_types function)]"
        using facts by (simp add: input_amount_def)
    next
      fix i assume "i \<in> set [0 ..< length (input_types function)]"
      then have i: "i < length (m_input_sizes this)" using facts by (simp add: input_amount_def)
      have "element_ptr input_buffers (m_input_sizes this) (indices ! j) i
          = element_address input_buffers (m_input_sizes this) (indices ! j) i"
        using assms(4) in_set i by (rule element_ptr_fit)
      then show "(i, element_ptr input_buffers (m_input_sizes this) (indices ! j) i,
                     unat (m_input_sizes this ! i))
          = spec_element input_buffers (input_types function) (indices ! j) i"
        using i facts by (simp add: spec_element_def element_address_def)
    qed
    finally show ?thesis .
  qed
  have "map (\<lambda>j. reads_of (index_events this body indices input_buffers output_buffers w j))
            [0 ..< length indices]
      = map (\<lambda>j. map (spec_element input_buffers (input_types function) (indices ! j))
                     [0 ..< length (input_types function)]) [0 ..< length indices]"
    by (rule map_cong) (simp_all add: per)
  then have "concat (map (\<lambda>j. reads_of (index_events this body indices input_buffers output_buffers w j))
            [0 ..< length indices])
      = concat (map (\<lambda>j. map (spec_element input_buffers (input_types function) (indices ! j))
                     [0 ..< length (input_types function)]) [0 ..< length indices])"
    by (rule arg_cong)
  moreover have "reads_of (concat (map (index_events this body indices input_buffers output_buffers w)
                              [0 ..< length indices]))
      = concat (map (\<lambda>j. reads_of (index_events this body indices input_buffers output_buffers w j))
            [0 ..< length indices])"
    by (simp only: reads_of_concat map_map comp_def)
  ultimately have "reads_of (concat (map (index_events this body indices input_buffers output_buffers w)
                              [0 ..< length indices]))
      = concat (map (\<lambda>j. map (spec_element input_buffers (input_types function) (indices ! j))
                              [0 ..< length (input_types function)]) [0 ..< length indices])"
    by (rule trans [rotated])
  also have "\<dots> = spec_accesses input_buffers (input_types function) indices"
    unfolding spec_accesses_def
    by (rule concat_map_nth)
  finally show ?thesis
    by (simp add: run_events [OF assms(1-3)])
qed

lemma boxed_writes:
  assumes "get_tuple_call_array_execution function = Inr this"
    and "tuple_call_body function = Some body"
    and "TupleCallArrayExecution_call this indices input_buffers output_buffers w = (None, w')"
    and "offsets_fit (m_output_sizes this) indices"
    and typed: "\<And>ins c vals c'. body ins c = (Inr vals, c')
            \<Longrightarrow> map length vals = map unat (m_output_sizes this)"
  shows "writes_of (events w') = writes_of (events w) @ spec_accesses output_buffers (output_types function) indices"
proof -
  note facts = ctor_facts [OF assms(1)]
  have per: "writes_of (index_events this body indices input_buffers output_buffers w j)
      = map (spec_element output_buffers (output_types function) (indices ! j)) [0 ..< length (output_types function)]"
    if j: "j < length indices" for j
  proof -
    let ?wj = "world_before this indices input_buffers output_buffers w j"
    let ?ins = "input_values this input_buffers (indices ! j) (heap ?wj)"
    have in_set: "indices ! j \<in> set indices" using j by simp
    obtain vals c where body: "body ?ins (execution_context ?wj) = (Inr vals, c)"
      using run_bodies_ok [OF assms(1-3) j] by blast
    have bo: "body_outputs body ?ins (execution_context ?wj) = vals"
      by (simp add: body_outputs_def body)
    have tl: "map length vals = map unat (m_output_sizes this)"
      using typed body by blast
    have len: "length vals = length (output_types function)"
      using typed_length [OF tl] facts by simp
    have "writes_of (index_events this body indices input_buffers output_buffers w j)
        = map (\<lambda>i. (i, element_ptr output_buffers (m_output_sizes this) (indices ! j) i,
                     length (vals ! i))) [0 ..< min (output_amount (m_function this)) (length vals)]"
      by (simp add: index_events_def Let_def writes_of_relocate_events bo)
    also have "\<dots> = map (spec_element output_buffers (output_types function) (indices ! j))
                       [0 ..< length (output_types function)]"
    proof (rule map_cong)
      show "[0 ..< min (output_amount (m_function this)) (length vals)] = [0 ..< length (output_types function)]"
        using facts len by (simp add: output_amount_def)
    next
      fix i assume "i \<in> set [0 ..< length (output_types function)]"
      then have i: "i < length (m_output_sizes this)" using facts by (simp add: output_amount_def)
      have "element_ptr output_buffers (m_output_sizes this) (indices ! j) i
          = element_address output_buffers (m_output_sizes this) (indices ! j) i"
        using assms(4) in_set i by (rule element_ptr_fit)
      moreover have "length (vals ! i) = unat (m_output_sizes this ! i)"
        using tl i by (rule typed_lengths)
      ultimately show "(i, element_ptr output_buffers (m_output_sizes this) (indices ! j) i,
                     length (vals ! i))
          = spec_element output_buffers (output_types function) (indices ! j) i"
        using i facts by (simp add: spec_element_def element_address_def)
    qed
    finally show ?thesis .
  qed
  have "map (\<lambda>j. writes_of (index_events this body indices input_buffers output_buffers w j))
            [0 ..< length indices]
      = map (\<lambda>j. map (spec_element output_buffers (output_types function) (indices ! j))
                     [0 ..< length (output_types function)]) [0 ..< length indices]"
    by (rule map_cong) (simp_all add: per)
  then have "concat (map (\<lambda>j. writes_of (index_events this body indices input_buffers output_buffers w j))
            [0 ..< length indices])
      = concat (map (\<lambda>j. map (spec_element output_buffers (output_types function) (indices ! j))
                     [0 ..< length (output_types function)]) [0 ..< length indices])"
    by (rule arg_cong)
  moreover have "writes_of (concat (map (index_events this body indices input_buffers output_buffers w)
                              [0 ..< length indices]))
      = concat (map (\<lambda>j. writes_of (index_events this body indices input_buffers output_buffers w j))
            [0 ..< length indices])"
    by (simp only: writes_of_concat map_map comp_def)
  ultimately have "writes_of (concat (map (index_events this body indices input_buffers output_buffers w)
                              [0 ..< length indices]))
      = concat (map (\<lambda>j. map (spec_element output_buffers (output_types function) (indices ! j))
                              [0 ..< length (output_types function)]) [0 ..< length indices])"
    by (rule trans [rotated])
  also have "\<dots> = spec_accesses output_buffers (output_types function) indices"
    unfolding spec_accesses_def
    by (rule concat_map_nth)
  finally show ?thesis
    by (simp add: run_events [OF assms(1-3)])
qed

lemma boxed_frame:
  assumes "get_tuple_call_array_execution function = Inr this"
    and "tuple_call_body function = Some body"
    and "TupleCallArrayExecution_call this indices input_buffers output_buffers w = (r, w')"
    and "offsets_fit (m_output_sizes this) indices"
    and typed: "\<And>ins c vals c'. body ins c = (Inr vals, c')
            \<Longrightarrow> map length vals = map unat (m_output_sizes this)"
    and "a \<notin> spec_region output_buffers (output_types function) indices"
  shows "heap w' a = heap w a"
proof (cases "input_amount function \<noteq> length input_buffers \<or> output_amount function \<noteq> length output_buffers")
  case True
  then show ?thesis
    using assms(3) by (simp add: TupleCallArrayExecution_call_eq [OF assms(1,2)])
next
  case False
  note facts = ctor_facts [OF assms(1)]
  have run: "for_each (index_step this body input_buffers output_buffers) indices (emit TuplesAllocated w) = (r, w')"
    using False assms(3) by (simp add: TupleCallArrayExecution_call_eq [OF assms(1,2)])
  have "heap w' a = heap (emit TuplesAllocated w) a"
  proof (rule for_each_index_step_frame [OF typed _ run])
    show "length (m_output_sizes this) = output_amount (m_function this)"
      using facts by simp
  next
    fix index k
    assume index: "index \<in> set indices" and k: "k < output_amount (m_function this)"
    then have k': "k < length (m_output_sizes this)" "k < length (output_types function)"
      using facts by (simp_all add: output_amount_def)
    have "element_ptr output_buffers (m_output_sizes this) index k
        = element_address output_buffers (m_output_sizes this) index k"
      using assms(4) index k'(1) by (rule element_ptr_fit)
    then have "output_region this output_buffers index k
        = region (output_buffers ! k + unat index * unat (cpp_type_size (output_types function ! k)))
                 (unat (cpp_type_size (output_types function ! k)))"
      using k' facts by (simp add: output_region_def element_address_def)
    then have "output_region this output_buffers index k \<subseteq> spec_region output_buffers (output_types function) indices"
      using index k'(2) by (auto simp: spec_region_def)
    then show "a \<notin> output_region this output_buffers index k"
      using assms(6) by auto
  qed (assumption)
  then show ?thesis by (simp add: emit_def)
qed


lemma precompiled_facts:
  assumes "get_precompiled_array_execution jit_failure function w0 = (Inr this, w1)"
  shows "\<exists>actual_function. llvm_build_ir_body function = Some (Inr actual_function)
           \<and> m_compiled_function this = generated_function (ArrayExecution_init function) actual_function"
proof -
  let ?base = "ArrayExecution_init function"
  obtain compiled where comp: "compile jit_failure ?base w0 = (Inr compiled, w1)"
    and this_eq: "this = \<lparr>m_function = m_function ?base, m_input_sizes = m_input_sizes ?base,
                   m_output_sizes = m_output_sizes ?base, m_compiled_function = compiled\<rparr>"
    using assms
    by (auto simp: get_precompiled_array_execution_def Let_def split: if_splits prod.splits sum.splits)
  have fn: "m_function ?base = function" by (simp add: ArrayExecution_init_def)
  show ?thesis
    using compile_success(1) [OF comp] fn by (auto simp: this_eq)
qed

lemma fold_iterations_indices:
  assumes "length indices < 2 ^ 32"
  shows "fold (\<lambda>iteration :: uint. step (indices ! unat iteration))
              (map of_nat [0 ..< unat (of_nat (length indices) :: uint)]) w
         = fold step indices w"
proof -
  have len: "unat (of_nat (length indices) :: uint) = length indices"
    using assms by (simp add: unat_of_nat)
  have "map (\<lambda>iteration :: uint. indices ! unat iteration) (map of_nat [0 ..< length indices])
      = map (\<lambda>j. indices ! j) [0 ..< length indices]"
    unfolding map_map
  proof (rule map_cong)
    fix j assume "j \<in> set [0 ..< length indices]"
    then have "j < 2 ^ 32" using assms by simp
    then have "unat (of_nat j :: uint) = j" by (simp add: unat_of_nat)
    then show "((\<lambda>iteration :: uint. indices ! unat iteration) \<circ> of_nat) j = indices ! j" by simp
  qed simp
  then have m: "map (\<lambda>iteration :: uint. indices ! unat iteration) (map of_nat [0 ..< length indices]) = indices"
    by (simp add: map_nth)
  have "fold (\<lambda>iteration :: uint. step (indices ! unat iteration)) (map of_nat [0 ..< length indices]) w
      = fold step (map (\<lambda>iteration :: uint. indices ! unat iteration) (map of_nat [0 ..< length indices])) w"
    by (simp only: fold_map comp_def)
  then show ?thesis by (simp only: len m)
qed

lemma native_call_eq:
  assumes "get_precompiled_array_execution jit_failure function w0 = (Inr this, w1)"
    and "llvm_build_ir_body function = Some (Inr actual_function)"
    and "length indices < 2 ^ 32"
  shows "LLVMArrayExecution_call this indices input_buffers output_buffers w =
     (None, fold (native_step (ArrayExecution_init function) actual_function input_buffers output_buffers)
                 indices
                 (emit (NativeInvoked (of_nat (length indices)) indices input_buffers output_buffers) w))"
proof -
  have "m_compiled_function this = generated_function (ArrayExecution_init function) actual_function"
    using precompiled_facts [OF assms(1)] assms(2) by auto
  then show ?thesis
    by (simp add: LLVMArrayExecution_call_def Let_def generated_function_eq
        fold_iterations_indices [OF assms(3)])
qed

lemma init_facts:
  "m_function (ArrayExecution_init function) = function"
  "m_input_sizes (ArrayExecution_init function) = map cpp_type_size (input_types function)"
  "m_output_sizes (ArrayExecution_init function) = map cpp_type_size (output_types function)"
  by (simp_all add: ArrayExecution_init_def)

lemma reads_of_load_events:
  "reads_of (load_events (ArrayExecution_init function) input_buffers index)
     = map (spec_element input_buffers (input_types function) index) [0 ..< length (input_types function)]"
proof -
  have "reads_of (load_events (ArrayExecution_init function) input_buffers index)
      = map (\<lambda>i. (i, element_address input_buffers (map cpp_type_size (input_types function)) index i,
                   unat (cpp_type_size (input_types function ! i))))
            [0 ..< length (input_types function)]"
    by (simp add: load_events_def reads_of_def concat_map_singleton comp_def init_facts input_amount_def)
  also have "\<dots> = map (spec_element input_buffers (input_types function) index)
                     [0 ..< length (input_types function)]"
    by (rule map_cong) (simp_all add: spec_element_def element_address_def)
  finally show ?thesis .
qed

lemma writes_of_load_events [simp]: "writes_of (load_events this input_buffers index) = []"
  by (simp add: load_events_def writes_of_def comp_def)

lemma reads_of_store_events [simp]: "reads_of (store_events this output_buffers index result) = []"
  by (simp add: store_events_def reads_of_def comp_def)

lemma writes_of_store_events:
  assumes "map length result = map unat (map cpp_type_size (output_types function))"
  shows "writes_of (store_events (ArrayExecution_init function) output_buffers index result)
     = map (spec_element output_buffers (output_types function) index) [0 ..< length (output_types function)]"
proof -
  have "writes_of (store_events (ArrayExecution_init function) output_buffers index result)
      = map (\<lambda>i. (i, element_address output_buffers (map cpp_type_size (output_types function)) index i,
                   length (result ! i)))
            [0 ..< length (output_types function)]"
    by (simp add: store_events_def writes_of_def concat_map_singleton comp_def init_facts output_amount_def)
  also have "\<dots> = map (spec_element output_buffers (output_types function) index)
                     [0 ..< length (output_types function)]"
  proof (rule map_cong)
    fix i assume "i \<in> set [0 ..< length (output_types function)]"
    then have i: "i < length (map cpp_type_size (output_types function))" by simp
    have "length (result ! i) = unat (map cpp_type_size (output_types function) ! i)"
      using assms i by (rule typed_lengths)
    then show "(i, element_address output_buffers (map cpp_type_size (output_types function)) index i,
                   length (result ! i))
        = spec_element output_buffers (output_types function) index i"
      using i by (simp add: spec_element_def element_address_def)
  qed simp
  finally show ?thesis .
qed

lemma native_reads:
  "reads_of (events (fold (native_step (ArrayExecution_init function) actual_function input_buffers output_buffers)
                          indices w))
     = reads_of (events w) @ spec_accesses input_buffers (input_types function) indices"
proof (induction indices arbitrary: w)
  case Nil
  then show ?case by (simp add: spec_accesses_def)
next
  case (Cons index indices)
  have "reads_of (events (native_step (ArrayExecution_init function) actual_function input_buffers output_buffers index w))
      = reads_of (events w) @ map (spec_element input_buffers (input_types function) index)
                                 [0 ..< length (input_types function)]"
    by (simp add: native_step_def Let_def reads_of_load_events split: prod.splits)
  then show ?case
    by (simp add: Cons.IH spec_accesses_def)
qed

lemma native_writes:
  assumes "\<And>ins c. map length (fst (actual_function ins c)) = map unat (map cpp_type_size (output_types function))"
  shows "writes_of (events (fold (native_step (ArrayExecution_init function) actual_function input_buffers output_buffers)
                          indices w))
     = writes_of (events w) @ spec_accesses output_buffers (output_types function) indices"
proof (induction indices arbitrary: w)
  case Nil
  then show ?case by (simp add: spec_accesses_def)
next
  case (Cons index indices)
  have "writes_of (events (native_step (ArrayExecution_init function) actual_function input_buffers output_buffers index w))
      = writes_of (events w) @ map (spec_element output_buffers (output_types function) index)
                                 [0 ..< length (output_types function)]"
  proof (cases "actual_function (loaded_values (ArrayExecution_init function) input_buffers index (heap w))
                   (execution_context w)")
    case (Pair result c)
    have "map length result = map unat (map cpp_type_size (output_types function))"
      using assms [of "loaded_values (ArrayExecution_init function) input_buffers index (heap w)" "execution_context w"]
        Pair by simp
    then show ?thesis
      using Pair by (simp add: native_step_def Let_def writes_of_store_events)
  qed
  then show ?case
    by (simp add: Cons.IH spec_accesses_def)
qed

lemma native_step_frame:
  assumes "\<And>ins c. map length (fst (actual_function ins c)) = map unat (map cpp_type_size (output_types function))"
    and "\<And>k. k < length (output_types function) \<Longrightarrow>
           a \<notin> region (output_buffers ! k + unat index * unat (cpp_type_size (output_types function ! k)))
                      (unat (cpp_type_size (output_types function ! k)))"
  shows "heap (native_step (ArrayExecution_init function) actual_function input_buffers output_buffers index w) a
     = heap w a"
proof (cases "actual_function (loaded_values (ArrayExecution_init function) input_buffers index (heap w))
                   (execution_context w)")
  case (Pair result c)
  have tl: "map length result = map unat (map cpp_type_size (output_types function))"
    using assms(1) [of "loaded_values (ArrayExecution_init function) input_buffers index (heap w)" "execution_context w"]
      Pair by simp
  have "native_stores (ArrayExecution_init function) output_buffers index result (heap w) a = heap w a"
    unfolding native_stores_def
  proof (rule fold_store_outside)
    fix i assume "i \<in> set [0 ..< output_amount (m_function (ArrayExecution_init function))]"
    then have i: "i < length (output_types function)" by (simp add: init_facts output_amount_def)
    then have "length (result ! i) = unat (cpp_type_size (output_types function ! i))"
      using typed_lengths [OF tl, of i] by simp
    then show "a \<notin> region (element_address output_buffers (m_output_sizes (ArrayExecution_init function)) index i)
                          (length (result ! i))"
      using assms(2) [OF i] i by (simp add: element_address_def init_facts)
  qed
  then show ?thesis
    using Pair by (simp add: native_step_def Let_def)
qed

lemma native_frame:
  assumes "\<And>ins c. map length (fst (actual_function ins c)) = map unat (map cpp_type_size (output_types function))"
    and "a \<notin> spec_region output_buffers (output_types function) indices"
  shows "heap (fold (native_step (ArrayExecution_init function) actual_function input_buffers output_buffers)
                    indices w) a
     = heap w a"
  using assms(2)
proof (induction indices arbitrary: w)
  case Nil
  then show ?case by simp
next
  case (Cons index indices)
  have "a \<notin> spec_region output_buffers (output_types function) indices"
    using Cons.prems by (auto simp: spec_region_def)
  then have "heap (fold (native_step (ArrayExecution_init function) actual_function input_buffers output_buffers)
                    indices (native_step (ArrayExecution_init function) actual_function input_buffers output_buffers index w)) a
      = heap (native_step (ArrayExecution_init function) actual_function input_buffers output_buffers index w) a"
    by (rule Cons.IH)
  moreover have "heap (native_step (ArrayExecution_init function) actual_function input_buffers output_buffers index w) a
      = heap w a"
  proof (rule native_step_frame [OF assms(1)])
    fix k assume "k < length (output_types function)"
    then show "a \<notin> region (output_buffers ! k + unat index * unat (cpp_type_size (output_types function ! k)))
                      (unat (cpp_type_size (output_types function ! k)))"
      using Cons.prems by (auto simp: spec_region_def)
  qed
  ultimately show ?case by simp
qed


subsection \<open>One index in both strategies\<close>

lemma offsets_fit_Cons:
  "offsets_fit sizes (index # indices) \<Longrightarrow> offsets_fit sizes [index] \<and> offsets_fit sizes indices"
  by (simp add: offsets_fit_def)

lemma input_values_eq_loaded:
  assumes "offsets_fit (map cpp_type_size (input_types function)) [index]"
  shows "input_values (ArrayExecution_init function) input_buffers index h
     = loaded_values (ArrayExecution_init function) input_buffers index h"
  unfolding input_values_def loaded_values_def
proof (rule map_cong)
  fix i assume "i \<in> set [0 ..< input_amount (m_function (ArrayExecution_init function))]"
  then have i: "i < length (map cpp_type_size (input_types function))"
    by (simp add: init_facts input_amount_def)
  have "element_ptr input_buffers (map cpp_type_size (input_types function)) index i
      = element_address input_buffers (map cpp_type_size (input_types function)) index i"
    using assms _ i by (rule element_ptr_fit) simp
  then show "load_bytes h (element_ptr input_buffers (m_input_sizes (ArrayExecution_init function)) index i)
               (unat (m_input_sizes (ArrayExecution_init function) ! i))
      = load_bytes h (element_address input_buffers (m_input_sizes (ArrayExecution_init function)) index i)
               (unat (cpp_type_size (input_types (m_function (ArrayExecution_init function)) ! i)))"
    using i by (simp add: init_facts)
qed simp

lemma store_outputs_eq_native:
  assumes "offsets_fit (map cpp_type_size (output_types function)) [index]"
    and "length vals = output_amount function"
  shows "store_outputs (ArrayExecution_init function) output_buffers index vals h
     = native_stores (ArrayExecution_init function) output_buffers index vals h"
  unfolding store_outputs_def native_stores_def
proof (rule fold_cong)
  show "[0 ..< min (output_amount (m_function (ArrayExecution_init function))) (length vals)]
      = [0 ..< output_amount (m_function (ArrayExecution_init function))]"
    using assms(2) by (simp add: init_facts)
next
  fix i assume "i \<in> set [0 ..< min (output_amount (m_function (ArrayExecution_init function))) (length vals)]"
  then have i: "i < length (map cpp_type_size (output_types function))"
    by (simp add: init_facts output_amount_def)
  have "element_ptr output_buffers (map cpp_type_size (output_types function)) index i
      = element_address output_buffers (map cpp_type_size (output_types function)) index i"
    using assms(1) _ i by (rule element_ptr_fit) simp
  then show "(\<lambda>h. store_bytes h (element_ptr output_buffers (m_output_sizes (ArrayExecution_init function)) index i) (vals ! i))
      = (\<lambda>h. store_bytes h (element_address output_buffers (m_output_sizes (ArrayExecution_init function)) index i) (vals ! i))"
    by (simp add: init_facts)
qed simp

lemma boxed_native_run:
  assumes outs: "\<And>ins. length (g ins) = output_amount function"
    and "offsets_fit (map cpp_type_size (input_types function)) indices"
    and "offsets_fit (map cpp_type_size (output_types function)) indices"
    and "heap w = heap v"
  shows "fst (for_each (index_step (ArrayExecution_init function) (\<lambda>ins c. (Inr (g ins), c))
                          input_buffers output_buffers) indices w) = None
    \<and> heap (snd (for_each (index_step (ArrayExecution_init function) (\<lambda>ins c. (Inr (g ins), c))
                          input_buffers output_buffers) indices w))
      = heap (fold (native_step (ArrayExecution_init function) (\<lambda>ins c. (g ins, c))
                          input_buffers output_buffers) indices v)"
  using assms(2-4)
proof (induction indices arbitrary: w v)
  case Nil
  then show ?case by simp
next
  case (Cons index indices)
  let ?base = "ArrayExecution_init function"
  have fi: "offsets_fit (map cpp_type_size (input_types function)) [index]"
    "offsets_fit (map cpp_type_size (input_types function)) indices"
    using Cons.prems(1) offsets_fit_Cons by blast+
  have fo: "offsets_fit (map cpp_type_size (output_types function)) [index]"
    "offsets_fit (map cpp_type_size (output_types function)) indices"
    using Cons.prems(2) offsets_fit_Cons by blast+
  let ?ins = "input_values ?base input_buffers index (heap w)"
  let ?v1 = "native_step ?base (\<lambda>ins c. (g ins, c)) input_buffers output_buffers index v"
  obtain r w1 where step: "index_step ?base (\<lambda>ins c. (Inr (g ins), c)) input_buffers output_buffers index w = (r, w1)"
    by (cases "index_step ?base (\<lambda>ins c. (Inr (g ins), c)) input_buffers output_buffers index w")
  have ok: "r = None"
    using step by (simp add: index_step_def Let_def outs init_facts)
  have hw: "heap w1 = store_outputs ?base output_buffers index (g ?ins) (heap w)"
    using step by (auto simp: index_step_def Let_def)
  have hv: "heap ?v1 = native_stores ?base output_buffers index
                (g (loaded_values ?base input_buffers index (heap v))) (heap v)"
    by (simp add: native_step_def Let_def)
  have same: "heap w1 = heap ?v1"
    unfolding hw hv
    using Cons.prems(3) input_values_eq_loaded [OF fi(1), of input_buffers "heap v"]
      store_outputs_eq_native [OF fo(1) outs]
    by simp
  show ?case
    using Cons.IH [OF fi(2) fo(2) same] step ok by simp
qed

subsection \<open>Two runs from heaps that agree on the inputs\<close>

lemma stores_agree:
  assumes "\<And>a. a \<in> A \<Longrightarrow> h1 a = h2 a"
    and "a \<in> A \<union> (\<Union>i \<in> set is. region (p i) (length (v i)))"
  shows "fold (\<lambda>i h. store_bytes h (p i) (v i)) is h1 a = fold (\<lambda>i h. store_bytes h (p i) (v i)) is h2 a"
proof (cases "\<exists>i \<in> set is. a \<in> region (p i) (length (v i))")
  case True
  then show ?thesis by (rule fold_store_inside)
next
  case False
  then have out: "\<And>i. i \<in> set is \<Longrightarrow> a \<notin> region (p i) (length (v i))" by blast
  from False assms(2) have "a \<in> A" by blast
  then have "h1 a = h2 a" by (rule assms(1))
  then show ?thesis
    by (simp add: fold_store_outside [of "is" a p v, OF out])
qed

lemma loads_agree:
  assumes "\<And>i. i < n \<Longrightarrow> region (p i) (sz i) \<subseteq> A"
    and "\<And>a. a \<in> A \<Longrightarrow> h1 a = h2 a"
  shows "map (\<lambda>i. load_bytes h1 (p i) (sz i)) [0 ..< n] = map (\<lambda>i. load_bytes h2 (p i) (sz i)) [0 ..< n]"
proof (rule map_cong)
  fix i assume "i \<in> set [0 ..< n]"
  then have "region (p i) (sz i) \<subseteq> A" using assms(1) by simp
  then show "load_bytes h1 (p i) (sz i) = load_bytes h2 (p i) (sz i)"
    using assms(2) by (intro load_bytes_cong) blast
qed simp

lemma boxed_step_agree:
  assumes typed: "\<And>ins. map length (g ins) = map unat (m_output_sizes this)"
    and n_in: "length (m_input_sizes this) = input_amount (m_function this)"
    and n_out: "length (m_output_sizes this) = output_amount (m_function this)"
    and reads: "\<And>k. k < length (m_input_sizes this) \<Longrightarrow>
        region (element_ptr input_buffers (m_input_sizes this) index k) (unat (m_input_sizes this ! k)) \<subseteq> A"
    and agree: "\<And>a. a \<in> A \<Longrightarrow> heap w1 a = heap w2 a"
  shows "fst (index_step this (\<lambda>ins c. (Inr (g ins), c)) input_buffers output_buffers index w1) = None"
    and "fst (index_step this (\<lambda>ins c. (Inr (g ins), c)) input_buffers output_buffers index w2) = None"
    and "a \<in> A \<union> (\<Union>k \<in> {..< length (m_output_sizes this)}.
              region (element_ptr output_buffers (m_output_sizes this) index k) (unat (m_output_sizes this ! k)))
         \<Longrightarrow> heap (snd (index_step this (\<lambda>ins c. (Inr (g ins), c)) input_buffers output_buffers index w1)) a
             = heap (snd (index_step this (\<lambda>ins c. (Inr (g ins), c)) input_buffers output_buffers index w2)) a"
proof -
  have len: "\<And>ins. length (g ins) = output_amount (m_function this)"
    using typed_length [OF typed] n_out by simp
  show "fst (index_step this (\<lambda>ins c. (Inr (g ins), c)) input_buffers output_buffers index w1) = None"
    "fst (index_step this (\<lambda>ins c. (Inr (g ins), c)) input_buffers output_buffers index w2) = None"
    by (simp_all add: index_step_def Let_def len)
  have ins: "input_values this input_buffers index (heap w1) = input_values this input_buffers index (heap w2)"
    unfolding input_values_def
    using reads agree n_in by (intro loads_agree [where A = A]) simp_all
  let ?vals = "g (input_values this input_buffers index (heap w2))"
  assume a: "a \<in> A \<union> (\<Union>k \<in> {..< length (m_output_sizes this)}.
              region (element_ptr output_buffers (m_output_sizes this) index k) (unat (m_output_sizes this ! k)))"
  have "a \<in> A \<union> (\<Union>i \<in> set [0 ..< min (output_amount (m_function this)) (length ?vals)].
              region (element_ptr output_buffers (m_output_sizes this) index i) (length (?vals ! i)))"
  proof (cases "a \<in> A")
    case True
    then show ?thesis by simp
  next
    case False
    with a obtain k where k: "k < length (m_output_sizes this)"
      and ak: "a \<in> region (element_ptr output_buffers (m_output_sizes this) index k) (unat (m_output_sizes this ! k))"
      by auto
    have "length (?vals ! k) = unat (m_output_sizes this ! k)"
      using typed k by (rule typed_lengths)
    then have "a \<in> region (element_ptr output_buffers (m_output_sizes this) index k) (length (?vals ! k))"
      using ak by simp
    moreover have "k \<in> set [0 ..< min (output_amount (m_function this)) (length ?vals)]"
      using k len n_out by simp
    ultimately show ?thesis by blast
  qed
  then have "store_outputs this output_buffers index ?vals (heap w1) a
      = store_outputs this output_buffers index ?vals (heap w2) a"
    unfolding store_outputs_def
    using agree by (intro stores_agree [where A = A]) simp_all
  then show "heap (snd (index_step this (\<lambda>ins c. (Inr (g ins), c)) input_buffers output_buffers index w1)) a
      = heap (snd (index_step this (\<lambda>ins c. (Inr (g ins), c)) input_buffers output_buffers index w2)) a"
    by (simp add: index_step_def Let_def ins)
qed

lemma boxed_run_agree:
  assumes typed: "\<And>ins. map length (g ins) = map unat (m_output_sizes this)"
    and n_in: "length (m_input_sizes this) = input_amount (m_function this)"
    and n_out: "length (m_output_sizes this) = output_amount (m_function this)"
    and reads: "read_footprint (TupleCall this) input_buffers indices \<subseteq> A"
    and agree: "\<And>a. a \<in> A \<Longrightarrow> heap w1 a = heap w2 a"
  shows "fst (for_each (index_step this (\<lambda>ins c. (Inr (g ins), c)) input_buffers output_buffers) indices w1) = None
    \<and> fst (for_each (index_step this (\<lambda>ins c. (Inr (g ins), c)) input_buffers output_buffers) indices w2) = None
    \<and> (\<forall>a \<in> A \<union> write_footprint (TupleCall this) output_buffers indices.
          heap (snd (for_each (index_step this (\<lambda>ins c. (Inr (g ins), c)) input_buffers output_buffers) indices w1)) a
          = heap (snd (for_each (index_step this (\<lambda>ins c. (Inr (g ins), c)) input_buffers output_buffers) indices w2)) a)"
  using reads agree
proof (induction indices arbitrary: A w1 w2)
  case Nil
  then show ?case by simp
next
  case (Cons index indices)
  let ?step = "index_step this (\<lambda>ins c. (Inr (g ins), c)) input_buffers output_buffers"
  let ?R = "\<Union>k \<in> {..< length (m_input_sizes this)}.
              region (element_ptr input_buffers (m_input_sizes this) index k) (unat (m_input_sizes this ! k))"
  let ?W = "\<Union>k \<in> {..< length (m_output_sizes this)}.
              region (element_ptr output_buffers (m_output_sizes this) index k) (unat (m_output_sizes this ! k))"
  have rfp: "read_footprint (TupleCall this) input_buffers (index # indices)
      = ?R \<union> read_footprint (TupleCall this) input_buffers indices"
    by simp
  have wfp: "write_footprint (TupleCall this) output_buffers (index # indices)
      = ?W \<union> write_footprint (TupleCall this) output_buffers indices"
    by simp
  have r1: "region (element_ptr input_buffers (m_input_sizes this) index k) (unat (m_input_sizes this ! k)) \<subseteq> A"
    if "k < length (m_input_sizes this)" for k
  proof -
    have "region (element_ptr input_buffers (m_input_sizes this) index k) (unat (m_input_sizes this ! k)) \<subseteq> ?R"
      using that by blast
    then show ?thesis using Cons.prems(1) unfolding rfp by blast
  qed
  have f1: "fst (?step index w1) = None"
    by (rule boxed_step_agree(1) [OF typed n_in n_out r1 Cons.prems(2)])
  have f2: "fst (?step index w2) = None"
    by (rule boxed_step_agree(2) [OF typed n_in n_out r1 Cons.prems(2)])
  define u1 where "u1 = snd (?step index w1)"
  define u2 where "u2 = snd (?step index w2)"
  have s1: "?step index w1 = (None, u1)" unfolding u1_def using f1 by (rule run_ok)
  have s2: "?step index w2 = (None, u2)" unfolding u2_def using f2 by (rule run_ok)
  have ag: "heap u1 a = heap u2 a" if "a \<in> A \<union> ?W" for a
    unfolding u1_def u2_def
    using typed n_in n_out r1 Cons.prems(2) that by (rule boxed_step_agree(3))
  have sub: "read_footprint (TupleCall this) input_buffers indices \<subseteq> A \<union> ?W"
    using Cons.prems(1) unfolding rfp by blast
  have ih: "fst (for_each ?step indices u1) = None \<and> fst (for_each ?step indices u2) = None
    \<and> (\<forall>a \<in> (A \<union> ?W) \<union> write_footprint (TupleCall this) output_buffers indices.
          heap (snd (for_each ?step indices u1)) a = heap (snd (for_each ?step indices u2)) a)"
    using sub ag by (rule Cons.IH)
  have un: "A \<union> write_footprint (TupleCall this) output_buffers (index # indices)
      = (A \<union> ?W) \<union> write_footprint (TupleCall this) output_buffers indices"
    unfolding wfp by blast
  have c1: "for_each ?step (index # indices) w1 = for_each ?step indices u1"
    by (simp add: s1)
  have c2: "for_each ?step (index # indices) w2 = for_each ?step indices u2"
    by (simp add: s2)
  show ?case
    unfolding c1 c2 un using ih .
qed


lemma native_step_agree:
  assumes typed: "\<And>ins. map length (g ins) = map unat (map cpp_type_size (output_types function))"
    and reads: "\<And>k. k < length (input_types function) \<Longrightarrow>
        region (element_address input_buffers (map cpp_type_size (input_types function)) index k)
               (unat (map cpp_type_size (input_types function) ! k)) \<subseteq> A"
    and agree: "\<And>a. a \<in> A \<Longrightarrow> heap w1 a = heap w2 a"
    and a: "a \<in> A \<union> (\<Union>k \<in> {..< length (output_types function)}.
              region (element_address output_buffers (map cpp_type_size (output_types function)) index k)
                     (unat (map cpp_type_size (output_types function) ! k)))"
  shows "heap (native_step (ArrayExecution_init function) (\<lambda>ins c. (g ins, c))
                 input_buffers output_buffers index w1) a
       = heap (native_step (ArrayExecution_init function) (\<lambda>ins c. (g ins, c))
                 input_buffers output_buffers index w2) a"
proof -
  let ?base = "ArrayExecution_init function"
  let ?isz = "map cpp_type_size (input_types function)"
  let ?osz = "map cpp_type_size (output_types function)"
  have "map (\<lambda>i. load_bytes (heap w1) (element_address input_buffers ?isz index i) (unat (?isz ! i)))
            [0 ..< length (input_types function)]
      = map (\<lambda>i. load_bytes (heap w2) (element_address input_buffers ?isz index i) (unat (?isz ! i)))
            [0 ..< length (input_types function)]"
    using reads agree by (rule loads_agree)
  moreover have "loaded_values ?base input_buffers index h
      = map (\<lambda>i. load_bytes h (element_address input_buffers ?isz index i) (unat (?isz ! i)))
            [0 ..< length (input_types function)]" for h
    unfolding loaded_values_def
    by (rule map_cong) (simp_all add: init_facts input_amount_def)
  ultimately have ins: "loaded_values ?base input_buffers index (heap w1)
      = loaded_values ?base input_buffers index (heap w2)"
    by simp
  let ?vals = "g (loaded_values ?base input_buffers index (heap w2))"
  have "a \<in> A \<union> (\<Union>i \<in> set [0 ..< output_amount (m_function ?base)].
              region (element_address output_buffers (m_output_sizes ?base) index i) (length (?vals ! i)))"
  proof (cases "a \<in> A")
    case True
    then show ?thesis by simp
  next
    case False
    with a obtain k where k: "k < length (output_types function)"
      and ak: "a \<in> region (element_address output_buffers ?osz index k) (unat (?osz ! k))"
      by auto
    have "length (?vals ! k) = unat (?osz ! k)"
      using typed by (rule typed_lengths) (simp add: k)
    then have "a \<in> region (element_address output_buffers (m_output_sizes ?base) index k) (length (?vals ! k))"
      using ak by (simp add: init_facts)
    moreover have "k \<in> set [0 ..< output_amount (m_function ?base)]"
      using k by (simp add: init_facts output_amount_def)
    ultimately show ?thesis by blast
  qed
  then have "native_stores ?base output_buffers index ?vals (heap w1) a
      = native_stores ?base output_buffers index ?vals (heap w2) a"
    unfolding native_stores_def
    using agree by (intro stores_agree [where A = A]) simp_all
  then show ?thesis
    by (simp add: native_step_def Let_def ins)
qed

lemma native_run_agree:
  assumes typed: "\<And>ins. map length (g ins) = map unat (map cpp_type_size (output_types function))"
    and reads: "(\<Union>index \<in> set indices. \<Union>k \<in> {..< length (input_types function)}.
        region (element_address input_buffers (map cpp_type_size (input_types function)) index k)
               (unat (map cpp_type_size (input_types function) ! k))) \<subseteq> A"
    and agree: "\<And>a. a \<in> A \<Longrightarrow> heap w1 a = heap w2 a"
  shows "\<forall>a \<in> A \<union> (\<Union>index \<in> set indices. \<Union>k \<in> {..< length (output_types function)}.
              region (element_address output_buffers (map cpp_type_size (output_types function)) index k)
                     (unat (map cpp_type_size (output_types function) ! k))).
          heap (fold (native_step (ArrayExecution_init function) (\<lambda>ins c. (g ins, c))
                        input_buffers output_buffers) indices w1) a
          = heap (fold (native_step (ArrayExecution_init function) (\<lambda>ins c. (g ins, c))
                        input_buffers output_buffers) indices w2) a"
  using reads agree
proof (induction indices arbitrary: A w1 w2)
  case Nil
  then show ?case by simp
next
  case (Cons index indices)
  let ?step = "native_step (ArrayExecution_init function) (\<lambda>ins c. (g ins, c)) input_buffers output_buffers"
  let ?Rf = "\<lambda>index. \<Union>k \<in> {..< length (input_types function)}.
        region (element_address input_buffers (map cpp_type_size (input_types function)) index k)
               (unat (map cpp_type_size (input_types function) ! k))"
  let ?Wf = "\<lambda>index. \<Union>k \<in> {..< length (output_types function)}.
              region (element_address output_buffers (map cpp_type_size (output_types function)) index k)
                     (unat (map cpp_type_size (output_types function) ! k))"
  have rfp: "(\<Union>i \<in> set (index # indices). ?Rf i) = ?Rf index \<union> (\<Union>i \<in> set indices. ?Rf i)"
    by simp
  have wfp: "(\<Union>i \<in> set (index # indices). ?Wf i) = ?Wf index \<union> (\<Union>i \<in> set indices. ?Wf i)"
    by simp
  have r1: "region (element_address input_buffers (map cpp_type_size (input_types function)) index k)
               (unat (map cpp_type_size (input_types function) ! k)) \<subseteq> A"
    if "k < length (input_types function)" for k
  proof -
    have "region (element_address input_buffers (map cpp_type_size (input_types function)) index k)
               (unat (map cpp_type_size (input_types function) ! k)) \<subseteq> ?Rf index"
      using that by blast
    then show ?thesis using Cons.prems(1) unfolding rfp by blast
  qed
  have ag: "heap (?step index w1) a = heap (?step index w2) a" if "a \<in> A \<union> ?Wf index" for a
    using typed r1 Cons.prems(2) that by (rule native_step_agree)
  have sub: "(\<Union>i \<in> set indices. ?Rf i) \<subseteq> A \<union> ?Wf index"
    using Cons.prems(1) unfolding rfp by blast
  have ih: "\<forall>a \<in> (A \<union> ?Wf index) \<union> (\<Union>i \<in> set indices. ?Wf i).
          heap (fold ?step indices (?step index w1)) a = heap (fold ?step indices (?step index w2)) a"
    using sub ag by (rule Cons.IH)
  have un: "A \<union> (\<Union>i \<in> set (index # indices). ?Wf i)
      = (A \<union> ?Wf index) \<union> (\<Union>i \<in> set indices. ?Wf i)"
    unfolding wfp by blast
  have c: "fold ?step (index # indices) w = fold ?step indices (?step index w)" for w
    by simp
  show ?case
    unfolding c un using ih .
qed

lemma precompiled_sizes:
  assumes "get_precompiled_array_execution jit_failure function w0 = (Inr this, w1)"
  shows "m_input_sizes this = map cpp_type_size (input_types function)"
    and "m_output_sizes this = map cpp_type_size (output_types function)"
  using assms
  by (auto simp: get_precompiled_array_execution_def Let_def ArrayExecution_init_def
      split: if_splits prod.splits sum.splits)

subsection \<open>C1: the two strategies write the same bytes\<close>

text \<open>
  C1 says that both strategies leave byte-identical output buffers for every index set.
  The boxed strategy computes the byte offset \<^verbatim>\<open>index * m_input_sizes[i]\<close> (and likewise for
  the outputs) in \<^verbatim>\<open>uint\<close>, so the product is cut to 32 bits; the generated code steps a
  strided pointer to the element the index names. For the 4-byte copy function and index
  \<open>2^30\<close> the boxed strategy copies element 0 of the input to element 0 of the output
  (byte 200 becomes 5), while the compiled strategy works on element \<open>2^30\<close>, which lies
  \<open>2^32\<close> bytes further, and leaves byte 200 as it was: the output buffers differ.
\<close>

theorem strategies_differ_beyond_32_bit_offsets:
  "get_tuple_call_array_execution ex_copy_fn = Inr (ArrayExecution_init ex_copy_fn)
   \<and> fst (get_precompiled_array_execution None ex_copy_fn ex_world) = Inr ex_copy_compiled
   \<and> heap (snd (TupleCallArrayExecution_call (ArrayExecution_init ex_copy_fn)
                   [1073741824] [100] [200] ex_world)) 200 = 5
   \<and> heap (snd (LLVMArrayExecution_call ex_copy_compiled
                   [1073741824] [100] [200] ex_world)) 200 = 0"
proof (intro conjI)
  show "get_tuple_call_array_execution ex_copy_fn = Inr (ArrayExecution_init ex_copy_fn)"
    by (simp add: get_tuple_call_array_execution_def ArrayExecution_init_def ex_copy_fn_def)
  show "fst (get_precompiled_array_execution None ex_copy_fn ex_world) = Inr ex_copy_compiled"
    by (simp add: get_precompiled_array_execution_def compile_def build_function_ir_def FromIR_def
        aquire_llvm_context_def release_llvm_context_def emit_def Let_def ArrayExecution_init_def
        ex_copy_fn_def ex_copy_compiled_def ex_word_def)
  show "heap (snd (TupleCallArrayExecution_call (ArrayExecution_init ex_copy_fn)
                   [1073741824] [100] [200] ex_world)) 200 = 5"
    by (simp add: boxed_eval load_bytes_map ex_copy_fn_def ex_word_def ex_world_def)
  show "heap (snd (LLVMArrayExecution_call ex_copy_compiled
                   [1073741824] [100] [200] ex_world)) 200 = 0"
    by (simp add: native_eval load_bytes_map ex_copy_compiled_def ex_copy_fn_def ex_word_def ex_world_def)
qed

text \<open>
  Where no product of an index and an element size reaches \<open>2^32\<close>, the overflow does not
  occur: for a function whose boxed body and compilable body compute the same pure
  function \<open>g\<close> of the inputs (one value per output) and buffer arrays of matching arity,
  both strategies return normally and leave byte-identical heaps from the same world.
\<close>

lemma strategies_agree_within_32_bit_offsets:
  assumes boxed: "get_tuple_call_array_execution function = Inr boxed"
    and compiled: "get_precompiled_array_execution jit_failure function w0 = (Inr compiled, w1)"
    and pure_boxed: "tuple_call_body function = Some (\<lambda>ins c. (Inr (g ins), c))"
    and pure_compiled: "llvm_build_ir_body function = Some (Inr (\<lambda>ins c. (g ins, c)))"
    and outs: "\<And>ins. length (g ins) = output_amount function"
    and arity: "length input_buffers = input_amount function"
               "length output_buffers = output_amount function"
    and len: "length indices < 2 ^ 32"
    and fit_in: "offsets_fit (map cpp_type_size (input_types function)) indices"
    and fit_out: "offsets_fit (map cpp_type_size (output_types function)) indices"
  shows "fst (TupleCallArrayExecution_call boxed indices input_buffers output_buffers w) = None
    \<and> fst (LLVMArrayExecution_call compiled indices input_buffers output_buffers w) = None
    \<and> heap (snd (TupleCallArrayExecution_call boxed indices input_buffers output_buffers w))
      = heap (snd (LLVMArrayExecution_call compiled indices input_buffers output_buffers w))"
proof -
  have b: "boxed = ArrayExecution_init function"
    using boxed by (simp add: get_tuple_call_array_execution_def Let_def split: if_splits)
  have bc: "TupleCallArrayExecution_call boxed indices input_buffers output_buffers w
      = for_each (index_step (ArrayExecution_init function) (\<lambda>ins c. (Inr (g ins), c))
                    input_buffers output_buffers) indices (emit TuplesAllocated w)"
    unfolding TupleCallArrayExecution_call_eq [OF boxed pure_boxed]
    using arity by (simp add: b)
  have cc: "LLVMArrayExecution_call compiled indices input_buffers output_buffers w
      = (None, fold (native_step (ArrayExecution_init function) (\<lambda>ins c. (g ins, c))
                       input_buffers output_buffers) indices
                 (emit (NativeInvoked (of_nat (length indices)) indices input_buffers output_buffers) w))"
    using compiled pure_compiled len by (rule native_call_eq)
  have "heap (emit TuplesAllocated w)
      = heap (emit (NativeInvoked (of_nat (length indices)) indices input_buffers output_buffers) w)"
    by (simp add: emit_def)
  then show ?thesis
    using boxed_native_run [OF outs fit_in fit_out] by (simp add: bc cc)
qed


lemma strategies_agree_within_32_bit_offsets_example:
  "heap (snd (TupleCallArrayExecution_call (ArrayExecution_init ex_twice_fn) [0, 2] [100] [200] ex_world))
     = heap (snd (LLVMArrayExecution_call ex_twice_compiled [0, 2] [100] [200] ex_world))"
proof -
  have pure_boxed: "tuple_call_body ex_twice_fn = Some (\<lambda>ins c. (Inr (ex_twice ins), c))"
    by (simp add: ex_twice_fn_def)
  have pure_compiled: "llvm_build_ir_body ex_twice_fn = Some (Inr (\<lambda>ins c. (ex_twice ins, c)))"
    by (simp add: ex_twice_fn_def)
  have outs: "\<And>ins. length (ex_twice ins) = output_amount ex_twice_fn"
    by (simp add: ex_twice_def output_amount_def ex_twice_fn_def)
  have arity: "length [100 :: pointer] = input_amount ex_twice_fn"
    "length [200 :: pointer] = output_amount ex_twice_fn"
    by (simp_all add: input_amount_def output_amount_def ex_twice_fn_def)
  have len: "length [0, 2 :: uint] < 2 ^ 32" by simp
  have fit_in: "offsets_fit (map cpp_type_size (input_types ex_twice_fn)) [0, 2]"
    by (simp add: offsets_fit_def ex_twice_fn_def ex_byte_def)
  have fit_out: "offsets_fit (map cpp_type_size (output_types ex_twice_fn)) [0, 2]"
    by (simp add: offsets_fit_def ex_twice_fn_def ex_byte_def)
  show ?thesis
    using strategies_agree_within_32_bit_offsets
      [OF ex_twice_ctor ex_twice_precompiled pure_boxed pure_compiled outs arity len fit_in fit_out]
    by blast
qed

subsection \<open>C2: a run touches the indexed elements only\<close>

text \<open>
  C2 says that for every index \<open>i\<close> the element of slot \<open>k\<close> is read or written at byte
  offset \<open>i * size[k]\<close> inside its buffer. The boxed strategy computes
  \<^verbatim>\<open>index * m_output_sizes[i]\<close> in \<^verbatim>\<open>uint\<close>, so the product is cut to 32 bits: for index
  \<open>2^30\<close> and a 4-byte type the call returns normally and has written the element at
  offset 0 of the output buffer (address 200), where the specification names offset
  \<open>2^32\<close> (address 4294967496).
\<close>

theorem boxed_offset_wraps_at_32_bits:
  "fst (execute (TupleCall (ArrayExecution_init ex_copy_fn)) [1073741824] [100] [200] ex_world) = None
   \<and> writes_of (events (snd (execute (TupleCall (ArrayExecution_init ex_copy_fn))
                                  [1073741824] [100] [200] ex_world)))
       = [(0, 200, 4)]
   \<and> spec_accesses [200] (output_types ex_copy_fn) [1073741824] = [(0, 4294967496, 4)]"
  by (simp add: boxed_eval load_bytes_map ex_copy_fn_def ex_word_def ex_world_def
      spec_accesses_def spec_element_def)

text \<open>
  Where the overflow does not occur, the accesses are the ones the specification names.
  For both strategies built for a function whose body returns values of the sizes of the
  output types (the boxed strategy with every product of an index and an element size
  below \<open>2^32\<close>, the compiled strategy with buffer arrays of matching arity): a run that
  returns normally has read, for every index in order and every input slot \<open>k\<close>, exactly
  the element at offset \<open>i * size[k]\<close> of \<open>input_buffers[k]\<close> and written, for every index
  and output slot, exactly the element at offset \<open>i * size[k]\<close> of \<open>output_buffers[k]\<close>,
  the sizes being those the constructor took from the type lists; whatever the outcome,
  no byte outside those output elements is changed; with no index, the heap is unchanged
  and a call with matching arity returns normally.
\<close>

lemma accesses_are_the_elements:
  assumes built:
      "(\<exists>this body. s = TupleCall this
          \<and> get_tuple_call_array_execution function = Inr this
          \<and> tuple_call_body function = Some body
          \<and> (\<forall>ins c vals c'. body ins c = (Inr vals, c') \<longrightarrow>
                 map length vals = map unat (map cpp_type_size (output_types function)))
          \<and> offsets_fit (map cpp_type_size (input_types function)) indices
          \<and> offsets_fit (map cpp_type_size (output_types function)) indices)
       \<or> (\<exists>this actual_function jit_failure w0 w1. s = Precompiled this
          \<and> get_precompiled_array_execution jit_failure function w0 = (Inr this, w1)
          \<and> llvm_build_ir_body function = Some (Inr actual_function)
          \<and> (\<forall>ins c. map length (fst (actual_function ins c))
                 = map unat (map cpp_type_size (output_types function)))
          \<and> length input_buffers = input_amount function
          \<and> length output_buffers = output_amount function
          \<and> length indices < 2 ^ 32)"
    and run: "execute s indices input_buffers output_buffers w = (r, w')"
  shows "m_input_sizes (ArrayExecution_init function) = map cpp_type_size (input_types function)
    \<and> m_output_sizes (ArrayExecution_init function) = map cpp_type_size (output_types function)
    \<and> (r = None \<longrightarrow>
          reads_of (events w') = reads_of (events w)
            @ spec_accesses input_buffers (input_types function) indices
        \<and> writes_of (events w') = writes_of (events w)
            @ spec_accesses output_buffers (output_types function) indices)
    \<and> (\<forall>a. a \<notin> spec_region output_buffers (output_types function) indices
            \<longrightarrow> heap w' a = heap w a)
    \<and> (indices = [] \<longrightarrow> heap w' = heap w
          \<and> (length input_buffers = input_amount function
               \<and> length output_buffers = output_amount function \<longrightarrow> r = None))"
proof -
  have sizes: "m_input_sizes (ArrayExecution_init function) = map cpp_type_size (input_types function)"
    "m_output_sizes (ArrayExecution_init function) = map cpp_type_size (output_types function)"
    by (simp_all add: init_facts)
  have main: "(r = None \<longrightarrow>
          reads_of (events w') = reads_of (events w)
            @ spec_accesses input_buffers (input_types function) indices
        \<and> writes_of (events w') = writes_of (events w)
            @ spec_accesses output_buffers (output_types function) indices)
    \<and> (\<forall>a. a \<notin> spec_region output_buffers (output_types function) indices
            \<longrightarrow> heap w' a = heap w a)
    \<and> (indices = [] \<and> length input_buffers = input_amount function
               \<and> length output_buffers = output_amount function \<longrightarrow> r = None)"
    using built
  proof (elim disjE exE conjE)
    fix this body
    assume s: "s = TupleCall this"
      and ctor: "get_tuple_call_array_execution function = Inr this"
      and body: "tuple_call_body function = Some body"
      and typed: "\<forall>ins c vals c'. body ins c = (Inr vals, c') \<longrightarrow>
                 map length vals = map unat (map cpp_type_size (output_types function))"
      and fit_in: "offsets_fit (map cpp_type_size (input_types function)) indices"
      and fit_out: "offsets_fit (map cpp_type_size (output_types function)) indices"
    note facts = ctor_facts [OF ctor]
    have call: "TupleCallArrayExecution_call this indices input_buffers output_buffers w = (r, w')"
      using run s by simp
    have typed': "\<And>ins c vals c'. body ins c = (Inr vals, c')
            \<Longrightarrow> map length vals = map unat (m_output_sizes this)"
      using typed facts by auto
    have fi: "offsets_fit (m_input_sizes this) indices" using fit_in facts by simp
    have fo: "offsets_fit (m_output_sizes this) indices" using fit_out facts by simp
    have rw: "reads_of (events w') = reads_of (events w)
            @ spec_accesses input_buffers (input_types function) indices
        \<and> writes_of (events w') = writes_of (events w)
            @ spec_accesses output_buffers (output_types function) indices" if "r = None"
    proof
      have ok: "TupleCallArrayExecution_call this indices input_buffers output_buffers w = (None, w')"
        using call that by simp
      show "reads_of (events w') = reads_of (events w)
            @ spec_accesses input_buffers (input_types function) indices"
        using ctor body ok fi by (rule boxed_reads)
      show "writes_of (events w') = writes_of (events w)
            @ spec_accesses output_buffers (output_types function) indices"
        using ctor body ok fo typed' by (rule boxed_writes)
    qed
    have frame: "heap w' a = heap w a"
      if "a \<notin> spec_region output_buffers (output_types function) indices" for a
      using ctor body call fo typed' that by (rule boxed_frame)
    have empty: "r = None" if "indices = []" "length input_buffers = input_amount function"
      "length output_buffers = output_amount function"
      using call that by (simp add: call_nil [OF ctor])
    from rw frame empty show ?thesis by blast
  next
    fix this actual_function jit_failure w0 w1
    assume s: "s = Precompiled this"
      and ctor: "get_precompiled_array_execution jit_failure function w0 = (Inr this, w1)"
      and body: "llvm_build_ir_body function = Some (Inr actual_function)"
      and typed: "\<forall>ins c. map length (fst (actual_function ins c))
                 = map unat (map cpp_type_size (output_types function))"
      and len: "length indices < 2 ^ 32"
    let ?w = "emit (NativeInvoked (of_nat (length indices)) indices input_buffers output_buffers) w"
    have call: "r = None"
      "w' = fold (native_step (ArrayExecution_init function) actual_function input_buffers output_buffers)
                 indices ?w"
      using run s native_call_eq [OF ctor body len, of input_buffers output_buffers w] by simp_all
    have typed': "\<And>ins c. map length (fst (actual_function ins c))
                 = map unat (map cpp_type_size (output_types function))"
      using typed by simp
    have "reads_of (events w') = reads_of (events w)
            @ spec_accesses input_buffers (input_types function) indices"
      by (simp add: call(2) native_reads emit_def)
    moreover have "writes_of (events w') = writes_of (events w)
            @ spec_accesses output_buffers (output_types function) indices"
      by (simp add: call(2) native_writes [OF typed'] emit_def)
    moreover have "heap w' a = heap w a"
      if "a \<notin> spec_region output_buffers (output_types function) indices" for a
      using native_frame [OF typed' that, where w = ?w and input_buffers = input_buffers]
      by (simp add: call(2) emit_def)
    ultimately show ?thesis using call(1) by blast
  qed
  have nil: "heap w' = heap w" if "indices = []"
  proof
    fix a
    have "a \<notin> spec_region output_buffers (output_types function) indices"
      using that by (simp add: spec_region_def)
    then show "heap w' a = heap w a" using main by blast
  qed
  from sizes main nil show ?thesis by blast
qed


lemma accesses_are_the_elements_example:
  "fst (execute (TupleCall (ArrayExecution_init ex_twice_fn)) [0, 2] [100] [200] ex_world) = None
   \<and> reads_of (events (snd (execute (TupleCall (ArrayExecution_init ex_twice_fn)) [0, 2] [100] [200] ex_world)))
       = [(0, 100, 1), (0, 102, 1)]
   \<and> writes_of (events (snd (execute (TupleCall (ArrayExecution_init ex_twice_fn)) [0, 2] [100] [200] ex_world)))
       = [(0, 200, 1), (0, 202, 1)]
   \<and> heap (snd (execute (TupleCall (ArrayExecution_init ex_twice_fn)) [0, 2] [100] [200] ex_world)) 201
       = heap ex_world 201"
proof -
  let ?s = "TupleCall (ArrayExecution_init ex_twice_fn)"
  let ?run = "execute ?s [0, 2] [100] [200] ex_world"
  have built: "\<exists>this body. ?s = TupleCall this
          \<and> get_tuple_call_array_execution ex_twice_fn = Inr this
          \<and> tuple_call_body ex_twice_fn = Some body
          \<and> (\<forall>ins c vals c'. body ins c = (Inr vals, c') \<longrightarrow>
                 map length vals = map unat (map cpp_type_size (output_types ex_twice_fn)))
          \<and> offsets_fit (map cpp_type_size (input_types ex_twice_fn)) [0, 2]
          \<and> offsets_fit (map cpp_type_size (output_types ex_twice_fn)) [0, 2]"
    apply (rule exI [of _ "ArrayExecution_init ex_twice_fn"])
    apply (rule exI [of _ "\<lambda>ins c. (Inr (ex_twice ins), c)"])
    apply (simp add: ex_twice_ctor)
    apply (auto simp: ex_twice_fn_def ex_twice_def ex_byte_def offsets_fit_def)
    done
  have ok: "fst ?run = None"
    by (simp add: boxed_eval ex_twice_fn_def ex_twice_def ex_byte_def ex_world_def)
  then have run: "?run = (None, snd ?run)"
    by (rule run_ok)
  have a: "201 \<notin> spec_region [200] (output_types ex_twice_fn) [0, 2]"
    by (auto simp: spec_region_def region_def ex_twice_fn_def ex_byte_def)
  have "reads_of (events (snd ?run)) = reads_of (events ex_world)
            @ spec_accesses [100] (input_types ex_twice_fn) [0, 2]
    \<and> writes_of (events (snd ?run)) = writes_of (events ex_world)
            @ spec_accesses [200] (output_types ex_twice_fn) [0, 2]
    \<and> heap (snd ?run) 201 = heap ex_world 201"
    using accesses_are_the_elements [OF disjI1 [OF built] run] a by blast
  then show ?thesis
    using ok by (simp add: spec_accesses_def spec_element_def ex_twice_fn_def ex_byte_def ex_world_def)
qed

subsection \<open>C3: the arity of the buffer arrays\<close>

text \<open>
  C3 says that both strategies assert, at entry to \<^verbatim>\<open>call\<close>, that there is one input
  buffer per input and one output buffer per output. \<^verbatim>\<open>TupleCallArrayExecution::call\<close>
  does; \<^verbatim>\<open>LLVMArrayExecution::call\<close> has no assertion. With two output buffers for a
  function of one output, the boxed call stops at entry and leaves the world untouched,
  while the compiled call runs the generated function, which loads, calls and stores.
\<close>

theorem arity_unchecked_by_compiled_call:
  "TupleCallArrayExecution_call (ArrayExecution_init ex_twice_fn) [1] [100] [200, 300] ex_world_compiled
     = (Some AssertionFailed, ex_world_compiled)
   \<and> fst (LLVMArrayExecution_call ex_twice_compiled [1] [100] [200, 300] ex_world_compiled) = None
   \<and> events (snd (LLVMArrayExecution_call ex_twice_compiled [1] [100] [200, 300] ex_world_compiled))
      = events ex_world_compiled
        @ [NativeInvoked 1 [1] [100] [200, 300], Loaded 0 101 1, ActualFunctionCalled [[0]],
           Stored 0 201 1]"
  by (simp add: boxed_eval native_eval ex_twice_compiled_def ex_twice_fn_def ex_twice_def
      ex_world_compiled_def ex_world_def ex_byte_def)

subsection \<open>C4: one pair of frames per call; copy in, call, relocate out per index\<close>

text \<open>
  C4. Let the arities match and let the body succeed at every position of the index
  sequence, returning a value for every output. Then the boxed \<^verbatim>\<open>call\<close> returns normally,
  and it has allocated its two frames exactly once, before the first index, however many
  indices there are. After the allocation its log is, for each position in order: one
  copy-in per input slot from the element of that index, one call of the body on the
  values copied in, one relocate-out per output slot to the element of that index.
  The loop that copies in fills every slot of the input frame with the element found in
  the heap and changes nothing but the log, so the source elements stay as they were; the
  loop that relocates out stores every value at its element and leaves every output slot
  empty, so both frames serve the next index.
  The single frame operations are those of the class \<^verbatim>\<open>Tuple\<close>, modelled from the spec.
\<close>

theorem frames_allocated_once_per_call:
  assumes ctor: "get_tuple_call_array_execution function = Inr this"
    and body: "tuple_call_body function = Some body"
    and arity: "length input_buffers = input_amount function"
               "length output_buffers = output_amount function"
    and succeeds: "\<And>j. j < length indices \<Longrightarrow>
           \<exists>vals c.
             body (input_values this input_buffers (indices ! j)
                     (heap (world_before this indices input_buffers output_buffers w j)))
                  (execution_context (world_before this indices input_buffers output_buffers w j))
               = (Inr vals, c)
             \<and> output_amount function \<le> length vals"
  shows "fst (TupleCallArrayExecution_call this indices input_buffers output_buffers w) = None
    \<and> events (snd (TupleCallArrayExecution_call this indices input_buffers output_buffers w))
        = events w @ TuplesAllocated #
           concat (map (index_events this body indices input_buffers output_buffers w)
                       [0 ..< length indices])
    \<and> length (filter is_allocation
         (events (snd (TupleCallArrayExecution_call this indices input_buffers output_buffers w))))
        = Suc (length (filter is_allocation (events w)))
    \<and> (\<forall>index fn_in (u :: 'a world).
          length (slots fn_in) = input_amount function \<and> slot_sizes fn_in = m_input_sizes this \<longrightarrow>
            copy_inputs this input_buffers index (fn_in, u)
              = (fn_in\<lparr>slots := map Some (input_values this input_buffers index (heap u))\<rparr>,
                 u\<lparr>events := events u @ copy_events this input_buffers index\<rparr>))
    \<and> (\<forall>index fn_out vals (u :: 'a world).
          output_amount function \<le> length vals \<longrightarrow>
            relocate_outputs this output_buffers index (fn_out\<lparr>slots := map Some vals\<rparr>, u)
              = (None,
                 fn_out\<lparr>slots := replicate (output_amount function) None
                                    @ drop (output_amount function) (map Some vals)\<rparr>,
                 u\<lparr>heap := store_outputs this output_buffers index vals (heap u),
                   events := events u @ relocate_events this output_buffers index vals\<rparr>))"
proof -
  let ?run = "TupleCallArrayExecution_call this indices input_buffers output_buffers w"
  have fn: "m_function this = function"
    using ctor_facts(1) [OF ctor] .
  have ok: "fst ?run = None"
    using ctor body arity succeeds by (rule run_returns_normally)
  then have run: "?run = (None, snd ?run)"
    by (rule run_ok)
  have ev: "events (snd ?run) = events w @ TuplesAllocated #
           concat (map (index_events this body indices input_buffers output_buffers w)
                       [0 ..< length indices])"
    using ctor body run by (rule run_events)
  have once: "length (filter is_allocation (events (snd ?run)))
      = Suc (length (filter is_allocation (events w)))"
    by (simp add: ev filter_concat_map_nil)
  have copy: "\<forall>index fn_in (u :: 'a world).
          length (slots fn_in) = input_amount function \<and> slot_sizes fn_in = m_input_sizes this \<longrightarrow>
            copy_inputs this input_buffers index (fn_in, u)
              = (fn_in\<lparr>slots := map Some (input_values this input_buffers index (heap u))\<rparr>,
                 u\<lparr>events := events u @ copy_events this input_buffers index\<rparr>)"
    using fn by (auto intro: copy_inputs_eq)
  have reloc: "\<forall>index fn_out vals (u :: 'a world).
          output_amount function \<le> length vals \<longrightarrow>
            relocate_outputs this output_buffers index (fn_out\<lparr>slots := map Some vals\<rparr>, u)
              = (None,
                 fn_out\<lparr>slots := replicate (output_amount function) None
                                    @ drop (output_amount function) (map Some vals)\<rparr>,
                 u\<lparr>heap := store_outputs this output_buffers index vals (heap u),
                   events := events u @ relocate_events this output_buffers index vals\<rparr>)"
    by (simp add: relocate_outputs_eq fn min_absorb1)
  from ok ev once copy reloc show ?thesis by blast
qed


theorem frames_allocated_once_per_call_witness:
  "fst (TupleCallArrayExecution_call (ArrayExecution_init ex_twice_fn) [0, 2, 2] [100] [200] ex_world) = None
   \<and> events (snd (TupleCallArrayExecution_call (ArrayExecution_init ex_twice_fn) [0, 2, 2] [100] [200] ex_world))
     = [TuplesAllocated,
        CopiedIn 0 100 1, BodyCalled [[5]], RelocatedOut 0 200 1,
        CopiedIn 0 102 1, BodyCalled [[9]], RelocatedOut 0 202 1,
        CopiedIn 0 102 1, BodyCalled [[9]], RelocatedOut 0 202 1]
   \<and> length (filter is_allocation
        (events (snd (TupleCallArrayExecution_call (ArrayExecution_init ex_twice_fn) [0, 2, 2] [100] [200] ex_world))))
     = Suc (length (filter is_allocation (events ex_world)))
   \<and> map (heap (snd (TupleCallArrayExecution_call (ArrayExecution_init ex_twice_fn) [0, 2, 2] [100] [200] ex_world)))
         [100, 102, 200, 202]
     = [5, 9, 10, 18]"
proof -
  let ?ex = "ArrayExecution_init ex_twice_fn"
  let ?run = "TupleCallArrayExecution_call ?ex [0, 2, 2] [100] [200] ex_world"
  have body: "tuple_call_body ex_twice_fn = Some (\<lambda>ins c. (Inr (ex_twice ins), c))"
    by (simp add: ex_twice_fn_def)
  have arity: "length [100 :: pointer] = input_amount ex_twice_fn"
    "length [200 :: pointer] = output_amount ex_twice_fn"
    by (simp_all add: input_amount_def output_amount_def ex_twice_fn_def)
  have succeeds: "\<exists>vals c.
             (\<lambda>ins c. (Inr (ex_twice ins), c))
                (input_values ?ex [100] ([0, 2, 2] ! j) (heap (world_before ?ex [0, 2, 2] [100] [200] ex_world j)))
                (execution_context (world_before ?ex [0, 2, 2] [100] [200] ex_world j))
               = (Inr vals, c)
             \<and> output_amount ex_twice_fn \<le> length vals" for j
    by (simp add: ex_twice_def output_amount_def ex_twice_fn_def)
  have "fst ?run = None
    \<and> length (filter is_allocation (events (snd ?run)))
        = Suc (length (filter is_allocation (events ex_world)))"
    using frames_allocated_once_per_call [OF ex_twice_ctor body arity succeeds] by blast
  moreover have "events (snd ?run)
     = [TuplesAllocated,
        CopiedIn 0 100 1, BodyCalled [[5]], RelocatedOut 0 200 1,
        CopiedIn 0 102 1, BodyCalled [[9]], RelocatedOut 0 202 1,
        CopiedIn 0 102 1, BodyCalled [[9]], RelocatedOut 0 202 1]"
    by (simp add: boxed_eval ex_twice_fn_def ex_twice_def ex_byte_def ex_world_def)
  moreover have "map (heap (snd ?run)) [100, 102, 200, 202] = [5, 9, 10, 18]"
    by (simp add: boxed_eval ex_twice_fn_def ex_twice_def ex_byte_def ex_world_def)
  ultimately show ?thesis by blast
qed

subsection \<open>C5: running again gives the same outputs\<close>

text \<open>
  C5. Take either strategy, built for a function whose body is a pure function \<open>g\<close> of the
  inputs returning values of the output types' sizes, and two worlds whose heaps agree on
  the input elements the run reads; the worlds may differ in everything else: the
  execution context, the log, the state of the code generation context and every other
  byte of the heap, the output buffers included. Then both runs of \<^verbatim>\<open>call\<close> with the same
  indices and buffers return normally, and afterwards the two heaps agree on every input
  element read and on every output element written. Nothing kept from one run to the next
  can change the outputs.
\<close>

theorem rerun_gives_same_outputs:
  assumes built:
      "(\<exists>this. s = TupleCall this
          \<and> get_tuple_call_array_execution function = Inr this
          \<and> tuple_call_body function = Some (\<lambda>ins c. (Inr (g ins), c)))
       \<or> (\<exists>this jit_failure w0 w1. s = Precompiled this
          \<and> get_precompiled_array_execution jit_failure function w0 = (Inr this, w1)
          \<and> llvm_build_ir_body function = Some (Inr (\<lambda>ins c. (g ins, c)))
          \<and> length indices < 2 ^ 32)"
    and typed: "\<And>ins. map length (g ins) = map unat (map cpp_type_size (output_types function))"
    and arity: "length input_buffers = input_amount function"
               "length output_buffers = output_amount function"
    and same_inputs: "\<And>a. a \<in> read_footprint s input_buffers indices \<Longrightarrow> heap w1 a = heap w2 a"
  shows "fst (execute s indices input_buffers output_buffers w1) = None
    \<and> fst (execute s indices input_buffers output_buffers w2) = None
    \<and> (\<forall>a \<in> read_footprint s input_buffers indices \<union> write_footprint s output_buffers indices.
          heap (snd (execute s indices input_buffers output_buffers w1)) a
          = heap (snd (execute s indices input_buffers output_buffers w2)) a)"
  using built
proof (elim disjE exE conjE)
  fix this
  assume s: "s = TupleCall this"
    and ctor: "get_tuple_call_array_execution function = Inr this"
    and body: "tuple_call_body function = Some (\<lambda>ins c. (Inr (g ins), c))"
  note facts = ctor_facts [OF ctor]
  let ?step = "index_step this (\<lambda>ins c. (Inr (g ins), c)) input_buffers output_buffers"
  have ex: "execute s indices input_buffers output_buffers w
      = for_each ?step indices (emit TuplesAllocated w)" for w
    using arity by (simp add: s TupleCallArrayExecution_call_eq [OF ctor body])
  have typed': "\<And>ins. map length (g ins) = map unat (m_output_sizes this)"
    using typed facts by simp
  have n_in: "length (m_input_sizes this) = input_amount (m_function this)"
    and n_out: "length (m_output_sizes this) = output_amount (m_function this)"
    using facts by simp_all
  have agree: "\<And>a. a \<in> read_footprint (TupleCall this) input_buffers indices
      \<Longrightarrow> heap (emit TuplesAllocated w1) a = heap (emit TuplesAllocated w2) a"
    using same_inputs s by (simp add: emit_def)
  show ?thesis
    unfolding ex
    using boxed_run_agree [OF typed' n_in n_out subset_refl agree, where output_buffers = output_buffers]
    by (simp add: s)
next
  fix this jit_failure w0 w1'
  assume s: "s = Precompiled this"
    and ctor: "get_precompiled_array_execution jit_failure function w0 = (Inr this, w1')"
    and body: "llvm_build_ir_body function = Some (Inr (\<lambda>ins c. (g ins, c)))"
    and len: "length indices < 2 ^ 32"
  note sizes = precompiled_sizes [OF ctor]
  let ?step = "native_step (ArrayExecution_init function) (\<lambda>ins c. (g ins, c)) input_buffers output_buffers"
  let ?inv = "NativeInvoked (of_nat (length indices)) indices input_buffers output_buffers"
  have ex: "execute s indices input_buffers output_buffers w = (None, fold ?step indices (emit ?inv w))" for w
    using native_call_eq [OF ctor body len] by (simp add: s)
  have rf: "read_footprint s input_buffers indices
      = (\<Union>index \<in> set indices. \<Union>k \<in> {..< length (input_types function)}.
        region (element_address input_buffers (map cpp_type_size (input_types function)) index k)
               (unat (map cpp_type_size (input_types function) ! k)))"
    by (simp add: s sizes)
  have wf: "write_footprint s output_buffers indices
      = (\<Union>index \<in> set indices. \<Union>k \<in> {..< length (output_types function)}.
              region (element_address output_buffers (map cpp_type_size (output_types function)) index k)
                     (unat (map cpp_type_size (output_types function) ! k)))"
    by (simp add: s sizes)
  have agree: "\<And>a. a \<in> read_footprint s input_buffers indices
      \<Longrightarrow> heap (emit ?inv w1) a = heap (emit ?inv w2) a"
    using same_inputs by (simp add: emit_def)
  have "\<forall>a \<in> read_footprint s input_buffers indices \<union> write_footprint s output_buffers indices.
          heap (fold ?step indices (emit ?inv w1)) a = heap (fold ?step indices (emit ?inv w2)) a"
    unfolding wf
    using typed _ agree
  proof (rule native_run_agree)
    show "(\<Union>index \<in> set indices. \<Union>k \<in> {..< length (input_types function)}.
        region (element_address input_buffers (map cpp_type_size (input_types function)) index k)
               (unat (map cpp_type_size (input_types function) ! k)))
        \<subseteq> read_footprint s input_buffers indices"
      unfolding rf by (rule subset_refl)
  qed
  then show ?thesis
    by (simp add: ex)
qed


theorem rerun_gives_same_outputs_witness:
  "heap (snd (execute (TupleCall (ArrayExecution_init ex_twice_fn)) [0, 2] [100] [200] ex_world)) 200
     = heap (snd (execute (TupleCall (ArrayExecution_init ex_twice_fn)) [0, 2] [100] [200] ex_world_again)) 200
   \<and> heap (snd (execute (TupleCall (ArrayExecution_init ex_twice_fn)) [0, 2] [100] [200] ex_world)) 202
     = heap (snd (execute (TupleCall (ArrayExecution_init ex_twice_fn)) [0, 2] [100] [200] ex_world_again)) 202
   \<and> heap ex_world 200 \<noteq> heap ex_world_again 200"
proof -
  let ?s = "TupleCall (ArrayExecution_init ex_twice_fn)"
  have built: "\<exists>this. ?s = TupleCall this
          \<and> get_tuple_call_array_execution ex_twice_fn = Inr this
          \<and> tuple_call_body ex_twice_fn = Some (\<lambda>ins c. (Inr (ex_twice ins), c))"
    by (simp add: ex_twice_ctor) (simp add: ex_twice_fn_def)
  have typed: "\<And>ins. map length (ex_twice ins) = map unat (map cpp_type_size (output_types ex_twice_fn))"
    by (simp add: ex_twice_def ex_twice_fn_def ex_byte_def)
  have arity: "length [100 :: pointer] = input_amount ex_twice_fn"
    "length [200 :: pointer] = output_amount ex_twice_fn"
    by (simp_all add: input_amount_def output_amount_def ex_twice_fn_def)
  have same_inputs: "\<And>a. a \<in> read_footprint ?s [100] [0, 2] \<Longrightarrow> heap ex_world a = heap ex_world_again a"
    by (auto simp: region_def element_ptr_def POINTER_OFFSET_def ArrayExecution_init_def
        ex_twice_fn_def ex_byte_def ex_world_def ex_world_again_def)
  have w: "200 \<in> read_footprint ?s [100] [0, 2] \<union> write_footprint ?s [200] [0, 2]"
    "202 \<in> read_footprint ?s [100] [0, 2] \<union> write_footprint ?s [200] [0, 2]"
    by (auto simp: region_def element_ptr_def POINTER_OFFSET_def ArrayExecution_init_def
        ex_twice_fn_def ex_byte_def)
  have "\<forall>a \<in> read_footprint ?s [100] [0, 2] \<union> write_footprint ?s [200] [0, 2].
          heap (snd (execute ?s [0, 2] [100] [200] ex_world)) a
          = heap (snd (execute ?s [0, 2] [100] [200] ex_world_again)) a"
    using rerun_gives_same_outputs [OF disjI1 [OF built] typed arity same_inputs] by blast
  then have "heap (snd (execute ?s [0, 2] [100] [200] ex_world)) 200
          = heap (snd (execute ?s [0, 2] [100] [200] ex_world_again)) 200"
    "heap (snd (execute ?s [0, 2] [100] [200] ex_world)) 202
          = heap (snd (execute ?s [0, 2] [100] [200] ex_world_again)) 202"
    using w by blast+
  moreover have "heap ex_world 200 \<noteq> heap ex_world_again 200"
    by (simp add: ex_world_def ex_world_again_def)
  ultimately show ?thesis by blast
qed

subsection \<open>C6: compiled at construction, invoked once per call\<close>

text \<open>
  C6. When the constructor of the compiled strategy succeeds, all code generation has
  happened inside it: the context was acquired, the module created, the function emitted,
  machine code compiled and the context released, in this order, and the object holds the
  generated function with the five parameters (count, indices, input buffers, output
  buffers, context). Every later \<^verbatim>\<open>call\<close> logs no code generation and invokes that
  function exactly once, with \<^verbatim>\<open>indices.size()\<close>, the indices, the input buffer array, the
  output buffer array, and the world that holds the execution context.
\<close>

theorem compiled_eagerly_invoked_once:
  assumes "get_precompiled_array_execution jit_failure function w0 = (Inr this, w1)"
  shows "events w1 = events w0 @ [ContextAcquired,
            ModuleCreated (fn_name function @ '' (Array Execution)''),
            IRBuilt, MachineCodeCompiled, ContextReleased]
    \<and> (\<exists>actual_function. llvm_build_ir_body function = Some (Inr actual_function)
           \<and> m_compiled_function this = generated_function (ArrayExecution_init function) actual_function)
    \<and> LLVMArrayExecution_call this indices input_buffers output_buffers w =
          (None, m_compiled_function this (of_nat (length indices)) indices input_buffers output_buffers
                   (emit (NativeInvoked (of_nat (length indices)) indices input_buffers output_buffers) w))
    \<and> filter is_code_generation
          (events (snd (LLVMArrayExecution_call this indices input_buffers output_buffers w)))
        = filter is_code_generation (events w)
    \<and> filter is_native_invocation
          (events (snd (LLVMArrayExecution_call this indices input_buffers output_buffers w)))
        = filter is_native_invocation (events w)
          @ [NativeInvoked (of_nat (length indices)) indices input_buffers output_buffers]"
proof -
  let ?base = "ArrayExecution_init function"
  obtain compiled where comp: "compile jit_failure ?base w0 = (Inr compiled, w1)"
    and this_eq: "this = \<lparr>m_function = m_function ?base, m_input_sizes = m_input_sizes ?base,
                   m_output_sizes = m_output_sizes ?base, m_compiled_function = compiled\<rparr>"
    using assms
    by (auto simp: get_precompiled_array_execution_def Let_def split: if_splits prod.splits sum.splits)
  have fn: "m_function ?base = function" by (simp add: ArrayExecution_init_def)
  obtain actual_function where body: "llvm_build_ir_body function = Some (Inr actual_function)"
    and gen: "compiled = generated_function ?base actual_function"
    using compile_success(1) [OF comp] fn by auto
  have ev: "events w1 = events w0 @ [ContextAcquired,
            ModuleCreated (fn_name function @ '' (Array Execution)''),
            IRBuilt, MachineCodeCompiled, ContextReleased]"
    using compile_success(2) [OF comp] fn by simp
  have mc: "m_compiled_function this = generated_function ?base actual_function"
    by (simp add: this_eq gen)
  have call: "LLVMArrayExecution_call this indices input_buffers output_buffers w =
          (None, m_compiled_function this (of_nat (length indices)) indices input_buffers output_buffers
                   (emit (NativeInvoked (of_nat (length indices)) indices input_buffers output_buffers) w))"
    by (simp add: LLVMArrayExecution_call_def Let_def)
  have cg: "filter is_code_generation
          (events (snd (LLVMArrayExecution_call this indices input_buffers output_buffers w)))
        = filter is_code_generation (events w)"
    by (simp add: call mc generated_function_eq fold_native_step_events_other emit_def)
  have inv: "filter is_native_invocation
          (events (snd (LLVMArrayExecution_call this indices input_buffers output_buffers w)))
        = filter is_native_invocation (events w)
          @ [NativeInvoked (of_nat (length indices)) indices input_buffers output_buffers]"
    by (simp add: call mc generated_function_eq fold_native_step_events_other emit_def)
  from ev body mc call cg inv show ?thesis by blast
qed

theorem compiled_eagerly_invoked_once_witness:
  "events ex_world_compiled = events ex_world @ [ContextAcquired,
      ModuleCreated (fn_name ex_twice_fn @ '' (Array Execution)''),
      IRBuilt, MachineCodeCompiled, ContextReleased]
   \<and> filter is_code_generation
        (events (snd (LLVMArrayExecution_call ex_twice_compiled [0, 2] [100] [200] ex_world_compiled)))
      = filter is_code_generation (events ex_world_compiled)
   \<and> filter is_native_invocation
        (events (snd (LLVMArrayExecution_call ex_twice_compiled [0, 2] [100] [200] ex_world_compiled)))
      = filter is_native_invocation (events ex_world_compiled)
        @ [NativeInvoked (of_nat (length [0, 2 :: uint])) [0, 2] [100] [200]]"
  using compiled_eagerly_invoked_once [OF ex_twice_precompiled, of "[0, 2]" "[100]" "[200]" ex_world_compiled]
  by blast

subsection \<open>C7: the generated loop runs exactly count times\<close>

text \<open>
  C7. For every value of the first parameter \<open>count\<close>, the generated function returns, and
  what it returns is the loop body applied once for each iteration number
  \<open>0, 1, \<dots>, count - 1\<close> in this order: the loop leaves on the counter alone. Each
  iteration calls the actual function once, so a run adds exactly \<open>count\<close> such calls to
  the log.
\<close>

theorem generated_loop_runs_count_times:
  "generated_function this actual_function count indices input_buffers_arg output_buffers_arg w
     = fold (loop_body this actual_function indices (get_input_buffers this input_buffers_arg)
               (get_output_buffers this output_buffers_arg))
            (map of_nat [0 ..< unat count]) w
   \<and> length (filter is_actual_call
        (events (generated_function this actual_function count indices input_buffers_arg
                   output_buffers_arg w)))
     = length (filter is_actual_call (events w)) + unat count"
proof
  show "generated_function this actual_function count indices input_buffers_arg output_buffers_arg w
     = fold (loop_body this actual_function indices (get_input_buffers this input_buffers_arg)
               (get_output_buffers this output_buffers_arg))
            (map of_nat [0 ..< unat count]) w"
    by (simp add: generated_function_def iterations_loop_eq Let_def)
  show "length (filter is_actual_call
        (events (generated_function this actual_function count indices input_buffers_arg
                   output_buffers_arg w)))
     = length (filter is_actual_call (events w)) + unat count"
    by (simp add: generated_function_eq fold_native_step_actual_calls)
qed

subsection \<open>C8: the code generation context and failing compilation\<close>

text \<open>
  C8 as stated says that no exit of \<^verbatim>\<open>compile()\<close> leaves the context acquired. It
  fails where code generation or compilation fails: \<^verbatim>\<open>release_llvm_context\<close> is the last
  statement of \<^verbatim>\<open>compile()\<close> and nothing scopes it, so a failure that leaves
  \<^verbatim>\<open>build_function_ir\<close> or \<^verbatim>\<open>FromIR\<close> skips it. Here the compiler fails on the example
  function and the context stays acquired.
\<close>

theorem compile_failure_keeps_context_acquired:
  "fst (compile (Some (CompilationFailure 1)) (ArrayExecution_init ex_twice_fn) ex_world)
     = Inl (CompilationFailure 1)
   \<and> llvm_context_held (snd (compile (Some (CompilationFailure 1)) (ArrayExecution_init ex_twice_fn) ex_world))"
  by (simp add: compile_def build_function_ir_def FromIR_def aquire_llvm_context_def
      release_llvm_context_def emit_def Let_def ArrayExecution_init_def ex_twice_fn_def)

text \<open>
  C8, amended. After \<^verbatim>\<open>compile()\<close> the context is still acquired exactly when
  \<^verbatim>\<open>compile()\<close> has failed: it is released on the exit that runs to the end of
  \<^verbatim>\<open>compile()\<close>, and on that exit only.
\<close>

theorem context_held_iff_compile_failed:
  "llvm_context_held (snd (compile jit_failure this w))
     \<longleftrightarrow> (\<exists>e. fst (compile jit_failure this w) = Inl e)"
proof (cases "compile jit_failure this w")
  case (Pair r w')
  show ?thesis
  proof (cases r)
    case (Inl e)
    with Pair compile_failure [of jit_failure this w e w'] show ?thesis by simp
  next
    case (Inr compiled)
    with Pair compile_success(3) [of jit_failure this w compiled w'] show ?thesis by simp
  qed
qed


subsection \<open>C9: a failing body ends the boxed call\<close>

text \<open>
  C9. When the body fails at position \<open>p\<close> of the index sequence (the positions before
  \<open>p\<close> having succeeded), the boxed \<^verbatim>\<open>call\<close> returns that same failure. The world it
  leaves is the world reached after the first \<open>p\<close> indices, with only the input copies and
  the failing body call of position \<open>p\<close> added to the log: the heap still holds every
  output written before \<open>p\<close>, nothing is written for \<open>p\<close>, and the result does not depend
  on the indices after \<open>p\<close>, which are never touched.
\<close>

theorem boxed_failure_propagates:
  assumes "get_tuple_call_array_execution function = Inr this"
    and "tuple_call_body function = Some body"
    and "p < length indices"
    and "fst (TupleCallArrayExecution_call this (take p indices) input_buffers output_buffers w) = None"
    and "body (input_values this input_buffers (indices ! p)
                 (heap (snd (TupleCallArrayExecution_call this (take p indices) input_buffers output_buffers w))))
              (execution_context (snd (TupleCallArrayExecution_call this (take p indices) input_buffers output_buffers w)))
          = (Inl e, c)"
  shows "TupleCallArrayExecution_call this indices input_buffers output_buffers w =
     (Some e,
      (snd (TupleCallArrayExecution_call this (take p indices) input_buffers output_buffers w))
        \<lparr>execution_context := c,
         events := events (snd (TupleCallArrayExecution_call this (take p indices) input_buffers output_buffers w))
                   @ copy_events this input_buffers (indices ! p)
                   @ [BodyCalled (input_values this input_buffers (indices ! p)
                        (heap (snd (TupleCallArrayExecution_call this (take p indices) input_buffers output_buffers w))))]\<rparr>)"
proof -
  let ?step = "index_step this body input_buffers output_buffers"
  let ?before = "TupleCallArrayExecution_call this (take p indices) input_buffers output_buffers w"
  have arity: "\<not> (input_amount function \<noteq> length input_buffers \<or> output_amount function \<noteq> length output_buffers)"
    using assms(4) TupleCallArrayExecution_call_eq [OF assms(1,2), of "take p indices" input_buffers output_buffers w]
    by (auto split: if_splits)
  have before: "?before = for_each ?step (take p indices) (emit TuplesAllocated w)"
    using arity TupleCallArrayExecution_call_eq [OF assms(1,2), of "take p indices" input_buffers output_buffers w]
    by simp
  have split: "indices = take p indices @ indices ! p # drop (Suc p) indices"
    using assms(3) by (simp add: id_take_nth_drop)
  have "TupleCallArrayExecution_call this indices input_buffers output_buffers w
      = for_each ?step (take p indices @ indices ! p # drop (Suc p) indices) (emit TuplesAllocated w)"
    using arity TupleCallArrayExecution_call_eq [OF assms(1,2), of indices input_buffers output_buffers w] split
    by simp
  also have "\<dots> = (case ?step (indices ! p) (snd ?before) of
                      (Some e, s') \<Rightarrow> (Some e, s')
                    | (None, s') \<Rightarrow> for_each ?step (drop (Suc p) indices) s')"
  proof -
    obtain wp where "for_each ?step (take p indices) (emit TuplesAllocated w) = (None, wp)"
      using assms(4) before by (cases "for_each ?step (take p indices) (emit TuplesAllocated w)") simp
    then show ?thesis
      using before by (simp add: for_each_append)
  qed
  also have "\<dots> = (Some e, (snd ?before)
        \<lparr>execution_context := c,
         events := events (snd ?before) @ copy_events this input_buffers (indices ! p)
                   @ [BodyCalled (input_values this input_buffers (indices ! p) (heap (snd ?before)))]\<rparr>)"
    using assms(5) by (simp add: index_step_def)
  finally show ?thesis .
qed

theorem boxed_failure_propagates_witness:
  "fst (TupleCallArrayExecution_call (ArrayExecution_init ex_fail_fn) [0, 1, 2] [100] [200] ex_world)
     = Some (BodyFailure 7)
   \<and> events (snd (TupleCallArrayExecution_call (ArrayExecution_init ex_fail_fn) [0, 1, 2] [100] [200] ex_world))
     = [TuplesAllocated, CopiedIn 0 100 1, BodyCalled [[5]], RelocatedOut 0 200 1,
        CopiedIn 0 101 1, BodyCalled [[0]]]
   \<and> heap (snd (TupleCallArrayExecution_call (ArrayExecution_init ex_fail_fn) [0, 1, 2] [100] [200] ex_world)) 200 = 6
   \<and> heap (snd (TupleCallArrayExecution_call (ArrayExecution_init ex_fail_fn) [0, 1, 2] [100] [200] ex_world)) 202 = 0"
proof -
  have body: "tuple_call_body ex_fail_fn = Some ex_fail_body"
    by (simp add: ex_fail_fn_def)
  have p: "1 < length [0, 1, 2 :: uint]" by simp
  have before: "TupleCallArrayExecution_call (ArrayExecution_init ex_fail_fn) (take 1 [0, 1, 2]) [100] [200] ex_world
      = (None, ex_world\<lparr>heap := (heap ex_world)(200 := 6), execution_context := 1,
           events := [TuplesAllocated, CopiedIn 0 100 1, BodyCalled [[5]], RelocatedOut 0 200 1]\<rparr>)"
    by (simp add: boxed_eval ex_fail_fn_def ex_fail_body_def ex_byte_def ex_world_def)
  have ok: "fst (TupleCallArrayExecution_call (ArrayExecution_init ex_fail_fn) (take 1 [0, 1, 2]) [100] [200] ex_world) = None"
    by (simp only: before fst_conv)
  have fails: "ex_fail_body (input_values (ArrayExecution_init ex_fail_fn) [100] ([0, 1, 2] ! 1)
                 (heap (snd (TupleCallArrayExecution_call (ArrayExecution_init ex_fail_fn) (take 1 [0, 1, 2]) [100] [200] ex_world))))
              (execution_context (snd (TupleCallArrayExecution_call (ArrayExecution_init ex_fail_fn) (take 1 [0, 1, 2]) [100] [200] ex_world)))
          = (Inl (BodyFailure 7), 1)"
    unfolding before
    by (simp add: boxed_eval ex_fail_fn_def ex_fail_body_def ex_byte_def ex_world_def)
  show ?thesis
    unfolding boxed_failure_propagates [OF ex_fail_ctor body p ok fails] before
    by (simp add: boxed_eval ex_fail_fn_def ex_byte_def ex_world_def)
qed

subsection \<open>C10: indices are processed in the order given\<close>

text \<open>
  C10. A boxed \<^verbatim>\<open>call\<close> that returns normally has called the body once for each position
  of the index sequence, first to last, each time on the input elements of that position's
  index as the heap held them when the position was reached; an index that occurs twice
  is processed twice. For the last occurrence of an index (position \<open>p\<close>), every output
  element of that index holds, when the call returns, what the body returned at position
  \<open>p\<close>. This needs that the body returns values of the sizes of the output types and that
  the output elements of different (index, slot) pairs do not overlap.
\<close>

theorem indices_processed_in_order:
  assumes "get_tuple_call_array_execution function = Inr this"
    and "tuple_call_body function = Some body"
    and "TupleCallArrayExecution_call this indices input_buffers output_buffers w = (None, w')"
    and typed: "\<And>ins c vals c'. body ins c = (Inr vals, c')
            \<Longrightarrow> map length vals = map unat (m_output_sizes this)"
    and disjoint: "\<And>i i' k k'. i \<in> set indices \<Longrightarrow> i' \<in> set indices
            \<Longrightarrow> k < output_amount function \<Longrightarrow> k' < output_amount function \<Longrightarrow> (i, k) \<noteq> (i', k')
            \<Longrightarrow> output_region this output_buffers i k \<inter> output_region this output_buffers i' k' = {}"
    and p: "p < length indices"
    and last: "indices ! p \<notin> set (drop (Suc p) indices)"
    and k: "k < output_amount function"
  shows "filter is_body_call (events w') = filter is_body_call (events w) @
           map (\<lambda>j. BodyCalled (input_values this input_buffers (indices ! j)
                       (heap (world_before this indices input_buffers output_buffers w j))))
               [0 ..< length indices]
    \<and> load_bytes (heap w') (element_ptr output_buffers (m_output_sizes this) (indices ! p) k)
          (unat (m_output_sizes this ! k))
        = body_outputs body
            (input_values this input_buffers (indices ! p)
               (heap (world_before this indices input_buffers output_buffers w p)))
            (execution_context (world_before this indices input_buffers output_buffers w p)) ! k"
proof
  show "filter is_body_call (events w') = filter is_body_call (events w) @
           map (\<lambda>j. BodyCalled (input_values this input_buffers (indices ! j)
                       (heap (world_before this indices input_buffers output_buffers w j))))
               [0 ..< length indices]"
    by (simp add: run_events [OF assms(1-3)] filter_concat_map_single)
next
  let ?step = "index_step this body input_buffers output_buffers"
  let ?ip = "indices ! p"
  let ?n = "output_amount function"
  let ?ptr = "\<lambda>i. element_ptr output_buffers (m_output_sizes this) ?ip i"
  note facts = ctor_facts [OF assms(1)]
  have split: "indices = take p indices @ ?ip # drop (Suc p) indices"
    using p by (simp add: id_take_nth_drop)
  have arity: "\<not> (input_amount function \<noteq> length input_buffers \<or> ?n \<noteq> length output_buffers)"
    using assms(3) TupleCallArrayExecution_call_eq [OF assms(1,2), of indices input_buffers output_buffers w]
    by (auto split: if_splits)
  have whole: "for_each ?step (take p indices @ ?ip # drop (Suc p) indices) (emit TuplesAllocated w) = (None, w')"
    using assms(3) arity TupleCallArrayExecution_call_eq [OF assms(1,2), of indices input_buffers output_buffers w] split
    by simp
  obtain wp w2 where before: "for_each ?step (take p indices) (emit TuplesAllocated w) = (None, wp)"
    and step: "?step ?ip wp = (None, w2)"
    and rest: "for_each ?step (drop (Suc p) indices) w2 = (None, w')"
    using whole by (auto simp: for_each_append split: prod.splits option.splits)
  have wb: "world_before this indices input_buffers output_buffers w p = wp"
    using arity before
    by (simp add: world_before_def TupleCallArrayExecution_call_eq [OF assms(1,2)])
  obtain vals c where body: "body (input_values this input_buffers ?ip (heap wp)) (execution_context wp) = (Inr vals, c)"
    and h2: "heap w2 = store_outputs this output_buffers ?ip vals (heap wp)"
    using index_step_ok [OF step] by blast
  have bo: "body_outputs body (input_values this input_buffers ?ip (heap wp)) (execution_context wp) = vals"
    by (simp add: body_outputs_def body)
  have tl: "map length vals = map unat (m_output_sizes this)"
    using typed body by blast
  have len: "length vals = ?n"
    using typed_length [OF tl] facts(5) by simp
  have lenk: "\<And>i. i < ?n \<Longrightarrow> length (vals ! i) = unat (m_output_sizes this ! i)"
    using typed_lengths [OF tl] facts(5) by simp
  have ip_in: "?ip \<in> set indices" using p by simp
  have byte_at: "heap w' a = vals ! k ! (a - ?ptr k)" if a: "a \<in> region (?ptr k) (length (vals ! k))" for a
  proof -
    have a_reg: "a \<in> output_region this output_buffers ?ip k"
      using a lenk [OF k] by (simp add: output_region_def)
    have upt: "[0 ..< min (output_amount (m_function this)) (length vals)] = [0 ..< k] @ k # [Suc k ..< ?n]"
      using k len facts(1) upt_split_at [of k ?n] by simp
    have later: "a \<notin> region (?ptr i) (length (vals ! i))" if "i \<in> set [Suc k ..< ?n]" for i
    proof -
      from that have i: "i < ?n" "i \<noteq> k" by simp_all
      have "output_region this output_buffers ?ip k \<inter> output_region this output_buffers ?ip i = {}"
        using disjoint [OF ip_in ip_in k i(1)] i(2) by simp
      then show ?thesis using a_reg lenk [OF i(1)] by (auto simp: output_region_def)
    qed
    have "heap w2 a = vals ! k ! (a - ?ptr k)"
      unfolding h2 store_outputs_def upt
      using a later by (rule fold_store_last)
    moreover have "heap w' a = heap w2 a"
    proof (rule for_each_index_step_frame [OF typed _ rest])
      show "length (m_output_sizes this) = output_amount (m_function this)"
        using facts by simp
    next
      fix index k'
      assume index: "index \<in> set (drop (Suc p) indices)" and k': "k' < output_amount (m_function this)"
      have ne: "index \<noteq> ?ip" using index last by auto
      have "index \<in> set indices" using index by (rule in_set_dropD)
      then have "output_region this output_buffers ?ip k \<inter> output_region this output_buffers index k' = {}"
        using disjoint [OF ip_in _ k, of index k'] k' ne facts(1) by simp
      then show "a \<notin> output_region this output_buffers index k'"
        using a_reg by auto
    qed (assumption)
    ultimately show ?thesis by simp
  qed
  have "load_bytes (heap w') (?ptr k) (length (vals ! k)) = vals ! k"
  proof (rule nth_equalityI)
    show "length (load_bytes (heap w') (?ptr k) (length (vals ! k))) = length (vals ! k)"
      by (simp add: load_bytes_map)
  next
    fix i assume "i < length (load_bytes (heap w') (?ptr k) (length (vals ! k)))"
    then have i: "i < length (vals ! k)" by (simp add: load_bytes_map)
    then have "?ptr k + i \<in> region (?ptr k) (length (vals ! k))" by (simp add: region_def)
    then have "heap w' (?ptr k + i) = vals ! k ! i" using byte_at by fastforce
    then show "load_bytes (heap w') (?ptr k) (length (vals ! k)) ! i = vals ! k ! i"
      using i by (simp add: load_bytes_map)
  qed
  then show "load_bytes (heap w') (?ptr k) (unat (m_output_sizes this ! k))
        = body_outputs body
            (input_values this input_buffers ?ip
               (heap (world_before this indices input_buffers output_buffers w p)))
            (execution_context (world_before this indices input_buffers output_buffers w p)) ! k"
    by (simp add: wb bo lenk [OF k])
qed


theorem indices_processed_in_order_witness:
  "fst (TupleCallArrayExecution_call (ArrayExecution_init ex_count_fn) [1, 0, 1] [100] [200] ex_world) = None
   \<and> load_bytes (heap (snd (TupleCallArrayExecution_call (ArrayExecution_init ex_count_fn) [1, 0, 1] [100] [200] ex_world)))
        201 1 = [2]"
proof -
  let ?ex = "ArrayExecution_init ex_count_fn"
  let ?run = "TupleCallArrayExecution_call ?ex [1, 0, 1] [100] [200] ex_world"
  have body: "tuple_call_body ex_count_fn = Some ex_count_body"
    by (simp add: ex_count_fn_def)
  have ok: "fst ?run = None"
    by (simp add: boxed_eval ex_count_fn_def ex_count_body_def ex_byte_def ex_world_def)
  then have run: "?run = (None, snd ?run)"
    by (rule run_ok)
  have wb: "world_before ?ex [1, 0, 1] [100] [200] ex_world 2
      = ex_world\<lparr>heap := (heap ex_world)(201 := 0, 200 := 1), execution_context := 2,
           events := [TuplesAllocated, CopiedIn 0 101 1, BodyCalled [[0]], RelocatedOut 0 201 1,
                      CopiedIn 0 100 1, BodyCalled [[5]], RelocatedOut 0 200 1]\<rparr>"
    by (simp add: world_before_def boxed_eval ex_count_fn_def ex_count_body_def ex_byte_def ex_world_def)
  have "filter is_body_call (events (snd ?run)) = filter is_body_call (events ex_world) @
           map (\<lambda>j. BodyCalled (input_values ?ex [100] ([1, 0, 1] ! j)
                       (heap (world_before ?ex [1, 0, 1] [100] [200] ex_world j))))
               [0 ..< length [1, 0, 1 :: uint]]
    \<and> load_bytes (heap (snd ?run)) (element_ptr [200] (m_output_sizes ?ex) ([1, 0, 1] ! 2) 0)
          (unat (m_output_sizes ?ex ! 0))
        = body_outputs ex_count_body
            (input_values ?ex [100] ([1, 0, 1] ! 2) (heap (world_before ?ex [1, 0, 1] [100] [200] ex_world 2)))
            (execution_context (world_before ?ex [1, 0, 1] [100] [200] ex_world 2)) ! 0"
  proof (rule indices_processed_in_order [OF ex_count_ctor body run])
    fix ins c vals c'
    assume "ex_count_body ins c = (Inr vals, c')"
    then show "map length vals = map unat (m_output_sizes ?ex)"
      by (auto simp: ex_count_body_def ArrayExecution_init_def ex_count_fn_def ex_byte_def)
  next
    fix i i' :: uint and k k' :: nat
    assume "i \<in> set [1, 0, 1]" "i' \<in> set [1, 0, 1]" "k < output_amount ex_count_fn"
      "k' < output_amount ex_count_fn" "(i, k) \<noteq> (i', k')"
    then show "output_region ?ex [200] i k \<inter> output_region ?ex [200] i' k' = {}"
      by (auto simp: output_region_def region_def element_ptr_def POINTER_OFFSET_def
          ArrayExecution_init_def ex_count_fn_def ex_byte_def output_amount_def)
  next
    show "2 < length [1, 0, 1 :: uint]" by simp
  next
    show "[1, 0, 1 :: uint] ! 2 \<notin> set (drop (Suc 2) [1, 0, 1])" by simp
  next
    show "0 < output_amount ex_count_fn" by (simp add: output_amount_def ex_count_fn_def)
  qed
  then have "load_bytes (heap (snd ?run)) (element_ptr [200] (m_output_sizes ?ex) ([1, 0, 1] ! 2) 0)
          (unat (m_output_sizes ?ex ! 0))
        = body_outputs ex_count_body
            (input_values ?ex [100] ([1, 0, 1] ! 2) (heap (world_before ?ex [1, 0, 1] [100] [200] ex_world 2)))
            (execution_context (world_before ?ex [1, 0, 1] [100] [200] ex_world 2)) ! 0"
    by (rule conjunct2)
  then have "load_bytes (heap (snd ?run)) 201 1 = [2]"
    unfolding wb
    by (simp add: body_outputs_def ex_count_body_def element_ptr_def POINTER_OFFSET_def
        ArrayExecution_init_def ex_count_fn_def ex_byte_def)
  with ok show ?thesis by simp
qed


end
